theory Spec2Isabelle
  imports Main "HOL-Library.Word"
begin

unbundle bit_operations_syntax

section \<open>Strings and the library calls of policy/x509/x509.go\<close>

text \<open>
  A Go string is a sequence of bytes: \<open>string\<close> (a \<open>char list\<close>), one \<open>char\<close> per
  byte, read as a number with \<open>of_char\<close>. A \<open>net.IP\<close> is a slice of bytes, a
  \<open>net.IPNet\<close> an address and a mask; a nil slice is the empty list. Of a \<open>url.URL\<close> the
  package reads the field \<open>Host\<close> and the text \<open>uri.String()\<close> returns, kept here as
  the field \<open>URIString\<close>.
\<close>

type_synonym IP = "8 word list"

record IPNet =
  IP :: IP
  Mask :: "8 word list"

record URL =
  Host :: string
  URIString :: string

text \<open>
  The functions of Go's standard library that the package calls are written out below
  from the library's sources (go1.17.5, the version the package cites). The renderings
  it only passes on into error messages (\<open>strconv.Quote\<close> behind the verb \<open>%q\<close>,
  \<open>net.IP.String\<close>, \<open>net.IPNet.String\<close>) are the fields of a record that every
  formatting function takes.
\<close>

record stdlib =
  Quote :: "string \<Rightarrow> string"
  IPString :: "IP \<Rightarrow> string"
  IPNetString :: "IPNet \<Rightarrow> string"

text \<open>\<open>strings.LastIndexByte\<close>: the index of the last \<open>c\<close> in \<open>s\<close>, or \<open>-1\<close>.\<close>

fun lastIndexByte :: "string \<Rightarrow> char \<Rightarrow> int" where
  "lastIndexByte [] c = -1"
| "lastIndexByte (x # xs) c =
     (let r = lastIndexByte xs c in
      if r \<noteq> -1 then r + 1 else if x = c then 0 else -1)"

text \<open>\<open>strings.IndexByte\<close>: the index of the first \<open>c\<close> in \<open>s\<close>, or \<open>-1\<close>.\<close>

fun indexByte :: "string \<Rightarrow> char \<Rightarrow> int" where
  "indexByte [] c = -1"
| "indexByte (x # xs) c =
     (if x = c then 0
      else let r = indexByte xs c in if r = -1 then -1 else r + 1)"

fun hasPrefix :: "string \<Rightarrow> string \<Rightarrow> bool" where
  "hasPrefix s [] = True"
| "hasPrefix [] (p # ps) = False"
| "hasPrefix (x # xs) (p # ps) = (x = p \<and> hasPrefix xs ps)"

definition hasSuffix :: "string \<Rightarrow> string \<Rightarrow> bool" where
  "hasSuffix s suf = hasPrefix (rev s) (rev suf)"

text \<open>\<open>strings.Contains\<close> and \<open>bytes.Contains\<close>: \<open>sub\<close> occurs in \<open>s\<close>.\<close>

fun contains :: "string \<Rightarrow> string \<Rightarrow> bool" where
  "contains [] sub = (sub = [])"
| "contains (x # xs) sub = (hasPrefix (x # xs) sub \<or> contains xs sub)"

text \<open>
  \<open>strings.EqualFold\<close> on bytes below 128 (its ASCII path): the strings have the same
  length and each pair of bytes is equal or is an upper-case letter and its lower-case
  form. The package applies it to labels and domains that \<open>domainToReverseLabels\<close>
  accepted, whose bytes are \<open>'.'\<close> or in 33..126; Go's Unicode folding of longer runes is
  not part of the model.
\<close>

definition foldEqByte :: "char \<Rightarrow> char \<Rightarrow> bool" where
  "foldEqByte sr tr =
     (if tr = sr then True
      else let lo = min (of_char sr) (of_char tr) :: nat;
               hi = max (of_char sr) (of_char tr) :: nat
           in 65 \<le> lo \<and> lo \<le> 90 \<and> hi = lo + 32)"

fun EqualFold :: "string \<Rightarrow> string \<Rightarrow> bool" where
  "EqualFold [] [] = True"
| "EqualFold (x # xs) (y # ys) = (foldEqByte x y \<and> EqualFold xs ys)"
| "EqualFold [] (y # ys) = False"
| "EqualFold (x # xs) [] = False"

text \<open>
  Case-insensitive comparison as the specification words it: two labels are equal up to
  case when they agree after every upper-case ASCII letter is replaced by its lower-case
  form.
\<close>

definition toLowerASCII :: "char \<Rightarrow> char" where
  "toLowerASCII c =
     (if 65 \<le> (of_char c :: nat) \<and> (of_char c :: nat) \<le> 90
      then char_of ((of_char c :: nat) + 32) else c)"

definition lowerLabel :: "string \<Rightarrow> string" where
  "lowerLabel label = map toLowerASCII label"

section \<open>domainToReverseLabels\<close>

text \<open>
  The first loop of \<open>domainToReverseLabels\<close>: while the domain is not empty, cut it at
  its last \<open>'.'\<close> and append what follows the dot; with no dot left, append the rest.
\<close>

function splitLabels :: "string \<Rightarrow> string list \<Rightarrow> string list" where
  "splitLabels d reverseLabels =
     (if length d > 0 then
        (let i = lastIndexByte d (CHR ''.'') in
         if i = -1 then splitLabels [] (reverseLabels @ [d])
         else splitLabels (take (nat i) d) (reverseLabels @ [drop (nat (i + 1)) d]))
      else reverseLabels)"
  by pat_completeness auto
termination
proof (relation "measure (\<lambda>(d, acc). length d)")
  show "wf (measure (\<lambda>(d :: string, acc :: string list). length d))"
    by simp
next
  fix d :: string and reverseLabels :: "string list" and x :: int
  assume "0 < length d"
  then show "(([], reverseLabels @ [d]), (d, reverseLabels)) \<in> measure (\<lambda>(d, acc). length d)"
    by simp
next
  fix d :: string and reverseLabels :: "string list" and x :: int
  assume nonempty: "0 < length d" and x: "x = lastIndexByte d (CHR ''.'')" and found: "x \<noteq> - 1"
  have bound: "lastIndexByte s c < int (length s) \<and> -1 \<le> lastIndexByte s c" for s c
    by (induction s) (auto simp: Let_def)
  from bound [of d "CHR ''.''"] x found have "nat x < length d"
    by linarith
  then show "((take (nat x) d, reverseLabels @ [drop (nat (x + 1)) d]), (d, reverseLabels))
      \<in> measure (\<lambda>(d, acc). length d)"
    by simp
qed

text \<open>
  The second loop: every label is non-empty and every character of it is in 33..126.
  The source ranges over the label's runes; a byte below 128 is its own rune and every
  rune decoded from bytes of 128 and above (the replacement rune of an invalid byte
  included) is above 126, so the test on runes is this test on bytes.
\<close>

fun labelsValid :: "string list \<Rightarrow> bool" where
  "labelsValid [] = True"
| "labelsValid (label # rest) =
     (if label = [] then False
      else if list_ex (\<lambda>c. (of_char c :: nat) < 33 \<or> (of_char c :: nat) > 126) label then False
      else labelsValid rest)"

definition domainToReverseLabels :: "string \<Rightarrow> string list option" where
  "domainToReverseLabels d =
     (let reverseLabels = splitLabels d [] in
      if length reverseLabels > 0 \<and> reverseLabels ! 0 = [] then None
      else if labelsValid reverseLabels then Some reverseLabels
      else None)"

text \<open>
  The labels of a name, read off the string: \<open>splitDots\<close> cuts a string at every
  \<open>'.'\<close> into its segments, left to right (joined by dots again they give the string
  back). The loop of \<open>domainToReverseLabels\<close> ends when nothing is left of the name, so
  it never appends the empty segment before a leading dot: \<open>labelsOf\<close> are the segments
  without an empty first one. A label is valid when it is not empty and all its bytes
  are in 33..126.
\<close>

fun splitDots :: "string \<Rightarrow> string list" where
  "splitDots [] = [[]]"
| "splitDots (c # s) =
     (if c = CHR ''.'' then [] # splitDots s
      else (case splitDots s of
              [] \<Rightarrow> [[c]]
            | seg # rest \<Rightarrow> (c # seg) # rest))"

fun joinDots :: "string list \<Rightarrow> string" where
  "joinDots [] = []"
| "joinDots [seg] = seg"
| "joinDots (seg # next # rest) = seg @ ''.'' @ joinDots (next # rest)"

definition labelsOf :: "string \<Rightarrow> string list" where
  "labelsOf d =
     (case splitDots d of
        [] \<Rightarrow> []
      | seg # rest \<Rightarrow> if seg = [] then rest else seg # rest)"

definition validLabel :: "string \<Rightarrow> bool" where
  "validLabel label =
     (label \<noteq> [] \<and> list_all (\<lambda>c. 33 \<le> (of_char c :: nat) \<and> (of_char c :: nat) \<le> 126) label)"

section \<open>matchDomainConstraint\<close>

text \<open>
  A matcher returns Go's pair \<open>(bool, error)\<close>: the flag and \<open>None\<close> for a nil error,
  \<open>Some msg\<close> for an error with that message.
\<close>

type_synonym matchResult = "bool \<times> string option"

definition labelsMatch :: "string list \<Rightarrow> string list \<Rightarrow> bool" where
  "labelsMatch constraintLabels domainLabels =
     list_all (\<lambda>i. EqualFold (constraintLabels ! i) (domainLabels ! i))
       [0 ..< length constraintLabels]"

definition matchDomainConstraint :: "'a stdlib_scheme \<Rightarrow> string \<Rightarrow> string \<Rightarrow> matchResult" where
  "matchDomainConstraint L d constraint =
     (if constraint = [] then (True, None)
      else case domainToReverseLabels d of
        None \<Rightarrow> (False, Some (''cannot parse domain '' @ Quote L d))
      | Some domainLabels \<Rightarrow>
          (let mustHaveSubdomains = (constraint ! 0 = CHR ''.'');
               constraint' = (if mustHaveSubdomains then drop 1 constraint else constraint)
           in case domainToReverseLabels constraint' of
             None \<Rightarrow> (False, Some (''cannot parse domain '' @ Quote L constraint'))
           | Some constraintLabels \<Rightarrow>
               if length domainLabels < length constraintLabels \<or>
                  (mustHaveSubdomains \<and> length domainLabels = length constraintLabels)
               then (False, None)
               else if labelsMatch constraintLabels domainLabels then (True, None)
               else (False, None)))"

section \<open>parseRFC2821Mailbox and matchEmailConstraint\<close>

record rfc2821Mailbox =
  local :: string
  domain :: string

text \<open>
  \<open>parseRFC2821Mailbox\<close> returns its named result \<open>mailbox\<close> and a flag. The fields
  are only assigned right before the successful return, so every failure returns the
  zero value of the struct next to \<open>false\<close>.
\<close>

definition zeroMailbox :: rfc2821Mailbox where
  "zeroMailbox = \<lparr>local = [], domain = []\<rparr>"

text \<open>The byte tests of the quoted-string loop: the \<open>qtext\<close> case and the quoted pair.\<close>

definition qtext :: "char \<Rightarrow> bool" where
  "qtext c =
     (let n = of_char c :: nat in
      n = 11 \<or> n = 12 \<or> n = 32 \<or> n = 33 \<or> n = 127 \<or>
      (1 \<le> n \<and> n \<le> 8) \<or> (14 \<le> n \<and> n \<le> 31) \<or>
      (35 \<le> n \<and> n \<le> 91) \<or> (93 \<le> n \<and> n \<le> 126))"

definition quotedPairText :: "char \<Rightarrow> bool" where
  "quotedPairText c =
     (let n = of_char c :: nat in
      n = 11 \<or> n = 12 \<or> (1 \<le> n \<and> n \<le> 9) \<or> (14 \<le> n \<and> n \<le> 127))"

text \<open>
  The loop labelled \<open>QuotedString\<close>, entered after the opening quote: it returns the
  local part and the input left after the closing quote, or fails.
\<close>

fun quotedString :: "string \<Rightarrow> string \<Rightarrow> (string \<times> string) option" where
  "quotedString [] localPartBytes = None"
| "quotedString (c # inp) localPartBytes =
     (if c = CHR 0x22 then Some (localPartBytes, inp)
      else if c = CHR 0x5C then
        (case inp of
           [] \<Rightarrow> None
         | e # inp' \<Rightarrow>
             if quotedPairText e then quotedString inp' (localPartBytes @ [e]) else None)
      else if qtext c then quotedString inp (localPartBytes @ [c])
      else None)"

text \<open>The \<open>atext\<close> case of the atom loop (RFC 2822, Section 3.2.4, and \<open>'.'\<close>).\<close>

definition atext :: "char \<Rightarrow> bool" where
  "atext c =
     (let n = of_char c :: nat in
      (48 \<le> n \<and> n \<le> 57) \<or> (97 \<le> n \<and> n \<le> 122) \<or> (65 \<le> n \<and> n \<le> 90) \<or>
      c = CHR ''!'' \<or> c = CHR ''#'' \<or> c = CHR ''$'' \<or> c = CHR ''%'' \<or>
      c = CHR ''&'' \<or> c = CHR 0x27 \<or> c = CHR ''*'' \<or> c = CHR ''+'' \<or>
      c = CHR ''-'' \<or> c = CHR ''/'' \<or> c = CHR ''='' \<or> c = CHR ''?'' \<or>
      c = CHR ''^'' \<or> c = CHR ''_'' \<or> c = CHR 0x60 \<or> c = CHR ''{'' \<or>
      c = CHR ''|'' \<or> c = CHR ''}'' \<or> c = CHR ''~'' \<or> c = CHR ''.'')"

text \<open>
  The loop labelled \<open>NextChar\<close>: a backslash admits the byte after it whatever it is
  (and fails at the end of the input), an \<open>atext\<close> byte is taken, any other byte ends
  the loop.
\<close>

fun atomLoop :: "string \<Rightarrow> string \<Rightarrow> (string \<times> string) option" where
  "atomLoop [] localPartBytes = Some (localPartBytes, [])"
| "atomLoop (c # inp) localPartBytes =
     (if c = CHR 0x5C then
        (case inp of
           [] \<Rightarrow> None
         | e # inp' \<Rightarrow> atomLoop inp' (localPartBytes @ [e]))
      else if atext c then atomLoop inp (localPartBytes @ [c])
      else Some (localPartBytes, c # inp))"

definition atomLocalPart :: "string \<Rightarrow> (string \<times> string) option" where
  "atomLocalPart inp =
     (case atomLoop inp [] of
        None \<Rightarrow> None
      | Some (localPartBytes, rest) \<Rightarrow>
          if length localPartBytes = 0 then None
          else if localPartBytes ! 0 = CHR ''.'' \<or>
                  localPartBytes ! (length localPartBytes - 1) = CHR ''.'' \<or>
                  contains localPartBytes ''..''
          then None
          else Some (localPartBytes, rest))"

definition parseRFC2821Mailbox :: "string \<Rightarrow> rfc2821Mailbox \<times> bool" where
  "parseRFC2821Mailbox inp =
     (if inp = [] then (zeroMailbox, False)
      else
        case (if inp ! 0 = CHR 0x22 then quotedString (drop 1 inp) [] else atomLocalPart inp) of
          None \<Rightarrow> (zeroMailbox, False)
        | Some (localPartBytes, rest) \<Rightarrow>
            if rest = [] \<or> rest ! 0 \<noteq> CHR ''@'' then (zeroMailbox, False)
            else
              (let rest' = drop 1 rest in
               case domainToReverseLabels rest' of
                 None \<Rightarrow> (zeroMailbox, False)
               | Some labels \<Rightarrow> (\<lparr>local = localPartBytes, domain = rest'\<rparr>, True)))"

definition matchEmailConstraint ::
  "'a stdlib_scheme \<Rightarrow> rfc2821Mailbox \<Rightarrow> string \<Rightarrow> matchResult" where
  "matchEmailConstraint L mailbox constraint =
     (if contains constraint ''@'' then
        (case parseRFC2821Mailbox constraint of
           (constraintMailbox, ok) \<Rightarrow>
             if \<not> ok then (False, Some (''cannot parse constraint '' @ Quote L constraint))
             else (local mailbox = local constraintMailbox \<and>
                   EqualFold (domain mailbox) (domain constraintMailbox), None))
      else matchDomainConstraint L (domain mailbox) constraint)"

text \<open>
  Quoted strings as the amended claim C7 words them. The bytes accepted unescaped are
  \<open>{11,12,32,33,127}\<close>, \<open>1..8\<close>, \<open>14..31\<close>, \<open>35..91\<close> and \<open>93..126\<close>; a quoted pair
  is a backslash and a byte of \<open>{11,12}\<close>, \<open>1..9\<close> or \<open>14..127\<close>. \<open>qcontent\<close> holds of a
  run of such bytes and pairs, the content of a quoted string before its closing quote,
  and \<open>unquote\<close> is the local part it denotes: the bytes, each pair without its
  backslash.
\<close>

definition unescapedByte :: "char \<Rightarrow> bool" where
  "unescapedByte c \<longleftrightarrow>
     (of_char c :: nat) \<in> {11, 12, 32, 33, 127} \<union> {1..8} \<union> {14..31} \<union> {35..91} \<union> {93..126}"

definition pairByte :: "char \<Rightarrow> bool" where
  "pairByte c \<longleftrightarrow> (of_char c :: nat) \<in> {11, 12} \<union> {1..9} \<union> {14..127}"

fun qcontent :: "string \<Rightarrow> bool" where
  "qcontent [] = True"
| "qcontent (c # s) =
     (if c = CHR 0x5C then
        (case s of [] \<Rightarrow> False | e # s' \<Rightarrow> pairByte e \<and> qcontent s')
      else unescapedByte c \<and> qcontent s)"

fun unquote :: "string \<Rightarrow> string" where
  "unquote [] = []"
| "unquote (c # s) =
     (if c = CHR 0x5C then
        (case s of [] \<Rightarrow> [] | e # s' \<Rightarrow> e # unquote s')
      else c # unquote s)"

section \<open>matchIPConstraint\<close>

text \<open>
  \<open>net.IP.To4\<close>: a 4-byte address is returned as it is, a 16-byte address with the
  prefix of an IPv4-mapped address gives its last four bytes, anything else nil.
\<close>

definition To4 :: "IP \<Rightarrow> IP option" where
  "To4 ip =
     (if length ip = 4 then Some ip
      else if length ip = 16 \<and> list_all (\<lambda>b. b = 0) (take 10 ip) \<and>
              ip ! 10 = 0xFF \<and> ip ! 11 = 0xFF
      then Some (take 4 (drop 12 ip))
      else None)"

definition isIPv4 :: "IP \<Rightarrow> bool" where
  "isIPv4 ip = (To4 ip \<noteq> None)"

text \<open>
  \<open>networkNumberAndMask\<close> of package \<open>net\<close>: the network's address (its 4-byte form
  when it has one) and the mask cut to the same length, or two nil slices.
\<close>

definition networkNumberAndMask :: "IPNet \<Rightarrow> IP \<times> 8 word list" where
  "networkNumberAndMask n =
     (case (case To4 (IP n) of
              Some ip \<Rightarrow> Some ip
            | None \<Rightarrow> if length (IP n) \<noteq> 16 then None else Some (IP n)) of
        None \<Rightarrow> ([], [])
      | Some ip \<Rightarrow>
          (let m = Mask n in
           if length m = 4 then (if length ip \<noteq> 4 then ([], []) else (ip, m))
           else if length m = 16 then (if length ip = 4 then (ip, drop 12 m) else (ip, m))
           else ([], [])))"

text \<open>
  \<open>net.IPNet.Contains\<close>: the address in its 4-byte form when it has one, of the
  network number's length, and equal to it under the mask byte by byte.
\<close>

definition Contains :: "IPNet \<Rightarrow> IP \<Rightarrow> bool" where
  "Contains n ip =
     (case networkNumberAndMask n of
        (nn, m) \<Rightarrow>
          (let ip' = (case To4 ip of Some x \<Rightarrow> x | None \<Rightarrow> ip);
               l = length ip'
           in if l \<noteq> length nn then False
              else list_all (\<lambda>i. (nn ! i) AND (m ! i) = (ip' ! i) AND (m ! i)) [0 ..< l]))"

definition matchIPConstraint :: "IP \<Rightarrow> IPNet \<Rightarrow> matchResult" where
  "matchIPConstraint ip constraint =
     (let contained = Contains constraint ip in (contained, None))"

text \<open>
  \<open>net.CIDRMask\<close>, the mask \<open>net.ParseCIDR\<close> gives a network written as an address and
  a prefix length: \<open>ones\<close> leading one bits over \<open>bits\<close> bits, nil when \<open>bits\<close> is
  neither 32 nor 128 or \<open>ones\<close> is out of range.
\<close>

fun cidrMaskLoop :: "nat \<Rightarrow> nat \<Rightarrow> 8 word list" where
  "cidrMaskLoop n 0 = []"
| "cidrMaskLoop n (Suc l) =
     (if n \<ge> 8 then 0xFF # cidrMaskLoop (n - 8) l
      else NOT (drop_bit n (0xFF :: 8 word)) # cidrMaskLoop 0 l)"

definition CIDRMask :: "int \<Rightarrow> int \<Rightarrow> 8 word list" where
  "CIDRMask ones bits =
     (if bits \<noteq> 8 * 4 \<and> bits \<noteq> 8 * 16 then []
      else if ones < 0 \<or> ones > bits then []
      else cidrMaskLoop (nat ones) (nat (bits div 8)))"

text \<open>
  CIDR containment as the specification words it. \<open>To16\<close> is the 16-byte form of an
  address (an IPv4 address behind the prefix of an IPv4-mapped address); \<open>bitsOf\<close> lists
  the bits of an address, the most significant bit of the first byte first. An address
  is in the network \<open>a/p\<close> when both are of the same address family and the leading
  bits of their 16-byte forms agree: \<open>p\<close> bits for a network given by a 16-byte
  address, the 96 bits of the prefix and \<open>p\<close> more for one given by a 4-byte address.
\<close>

definition v4InV6Prefix :: "8 word list" where
  "v4InV6Prefix = [0, 0, 0, 0, 0, 0, 0, 0, 0, 0, 0xFF, 0xFF]"

definition To16 :: "IP \<Rightarrow> IP option" where
  "To16 ip =
     (if length ip = 4 then Some (v4InV6Prefix @ ip)
      else if length ip = 16 then Some ip
      else None)"

definition bitsOfByte :: "8 word \<Rightarrow> bool list" where
  "bitsOfByte b = map (\<lambda>j. bit b (7 - j)) [0 ..< 8]"

definition bitsOf :: "IP \<Rightarrow> bool list" where
  "bitsOf ip = concat (map bitsOfByte ip)"

definition cidrContains :: "IP \<Rightarrow> nat \<Rightarrow> IP \<Rightarrow> bool" where
  "cidrContains a p ip =
     (case (To16 a, To16 ip) of
        (Some a16, Some ip16) \<Rightarrow>
          isIPv4 ip = isIPv4 a \<and>
          (let P = (if length a = 4 then 96 + p else p)
           in take P (bitsOf ip16) = take P (bitsOf a16))
      | _ \<Rightarrow> False)"

section \<open>matchURIConstraint\<close>

text \<open>
  \<open>net.SplitHostPort\<close>: the host and the port of \<open>host:port\<close> or \<open>[host]:port\<close>, the
  brackets removed, or an \<open>AddrError\<close>, modelled by the text of its \<open>Error\<close> method.
\<close>

definition addrErr :: "string \<Rightarrow> string \<Rightarrow> string + (string \<times> string)" where
  "addrErr addr why =
     Inl (if addr \<noteq> [] then ''address '' @ addr @ '': '' @ why else why)"

definition missingPort :: string where
  "missingPort = ''missing port in address''"

definition tooManyColons :: string where
  "tooManyColons = ''too many colons in address''"

definition splitHostPortRest ::
  "string \<Rightarrow> int \<Rightarrow> string \<Rightarrow> nat \<Rightarrow> nat \<Rightarrow> string + (string \<times> string)" where
  "splitHostPortRest hostport i host j k =
     (if indexByte (drop j hostport) (CHR ''['') \<ge> 0
      then addrErr hostport (''unexpected '' @ [CHR 0x27, CHR ''['', CHR 0x27] @ '' in address'')
      else if indexByte (drop k hostport) (CHR '']'') \<ge> 0
      then addrErr hostport (''unexpected '' @ [CHR 0x27, CHR '']'', CHR 0x27] @ '' in address'')
      else Inr (host, drop (nat (i + 1)) hostport))"

definition SplitHostPort :: "string \<Rightarrow> string + (string \<times> string)" where
  "SplitHostPort hostport =
     (let i = lastIndexByte hostport (CHR '':'') in
      if i < 0 then addrErr hostport missingPort
      else if hostport ! 0 = CHR ''['' then
        (let e = indexByte hostport (CHR '']'') in
         if e < 0
         then addrErr hostport (''missing '' @ [CHR 0x27, CHR '']'', CHR 0x27] @ '' in address'')
         else if e + 1 = int (length hostport) then addrErr hostport missingPort
         else if e + 1 = i then
           splitHostPortRest hostport i (take (nat e - 1) (drop 1 hostport)) 1 (nat (e + 1))
         else if hostport ! nat (e + 1) = CHR '':'' then addrErr hostport tooManyColons
         else addrErr hostport missingPort)
      else
        (let host = take (nat i) hostport in
         if indexByte host (CHR '':'') \<ge> 0 then addrErr hostport tooManyColons
         else splitHostPortRest hostport i host 0 0))"

text \<open>
  \<open>net.ParseIP\<close> with its helpers \<open>dtoi\<close>, \<open>xtoi\<close>, \<open>parseIPv4\<close> and \<open>parseIPv6\<close>: the
  16-byte address a text denotes, or nil. The helpers return the number read, the count
  of characters consumed and a flag.
\<close>

definition big :: nat where
  "big = 0xFFFFFF"

fun dtoiLoop :: "string \<Rightarrow> nat \<Rightarrow> nat \<Rightarrow> nat \<times> nat \<times> bool" where
  "dtoiLoop [] n i = (if i = 0 then (0, 0, False) else (n, i, True))"
| "dtoiLoop (c # s) n i =
     (if 48 \<le> (of_char c :: nat) \<and> (of_char c :: nat) \<le> 57 then
        (let n' = n * 10 + ((of_char c :: nat) - 48) in
         if n' \<ge> big then (big, i, False) else dtoiLoop s n' (i + 1))
      else if i = 0 then (0, 0, False) else (n, i, True))"

definition dtoi :: "string \<Rightarrow> nat \<times> nat \<times> bool" where
  "dtoi s = dtoiLoop s 0 0"

fun xtoiLoop :: "string \<Rightarrow> nat \<Rightarrow> nat \<Rightarrow> nat \<times> nat \<times> bool" where
  "xtoiLoop [] n i = (if i = 0 then (0, i, False) else (n, i, True))"
| "xtoiLoop (c # s) n i =
     (let v = of_char c :: nat in
      if (48 \<le> v \<and> v \<le> 57) \<or> (97 \<le> v \<and> v \<le> 102) \<or> (65 \<le> v \<and> v \<le> 70) then
        (let n' = (if 48 \<le> v \<and> v \<le> 57 then n * 16 + (v - 48)
                   else if 97 \<le> v \<and> v \<le> 102 then n * 16 + (v - 97) + 10
                   else n * 16 + (v - 65) + 10)
         in if n' \<ge> big then (0, i, False) else xtoiLoop s n' (i + 1))
      else if i = 0 then (0, i, False) else (n, i, True))"

definition xtoi :: "string \<Rightarrow> nat \<times> nat \<times> bool" where
  "xtoi s = xtoiLoop s 0 0"

text \<open>
  The loop of \<open>parseIPv4\<close> over the four octets: \<open>k\<close> counts the iterations left,
  \<open>i\<close> the octets read, \<open>p\<close> holds them.
\<close>

fun parseIPv4Loop :: "nat \<Rightarrow> nat \<Rightarrow> string \<Rightarrow> 8 word list \<Rightarrow> (string \<times> 8 word list) option" where
  "parseIPv4Loop 0 i s p = Some (s, p)"
| "parseIPv4Loop (Suc k) i s p =
     (if length s = 0 then None
      else
        case (if i > 0 then (if s ! 0 \<noteq> CHR ''.'' then None else Some (drop 1 s)) else Some s) of
          None \<Rightarrow> None
        | Some s1 \<Rightarrow>
            (case dtoi s1 of
               (n, c, ok) \<Rightarrow>
                 if \<not> ok \<or> n > 0xFF then None
                 else if c > 1 \<and> s1 ! 0 = CHR ''0'' then None
                 else parseIPv4Loop k (i + 1) (drop c s1) (p @ [of_nat n])))"

definition parseIPv4 :: "string \<Rightarrow> IP option" where
  "parseIPv4 s =
     (case parseIPv4Loop 4 0 s [] of
        None \<Rightarrow> None
      | Some (s', p) \<Rightarrow> if length s' \<noteq> 0 then None else Some (v4InV6Prefix @ p))"

text \<open>
  The loop of \<open>parseIPv6\<close> over the 16-bit groups, from the state \<open>(s, ip, ellipsis, i)\<close>:
  it returns the state the loop ends in, or fails.
\<close>

function parseIPv6Loop ::
  "string \<Rightarrow> 8 word list \<Rightarrow> int \<Rightarrow> nat \<Rightarrow> (string \<times> 8 word list \<times> int \<times> nat) option" where
  "parseIPv6Loop s ip ellipsis i =
     (if i < 16 then
        (case xtoi s of
           (n, c, ok) \<Rightarrow>
             if \<not> ok \<or> n > 0xFFFF then None
             else if c < length s \<and> s ! c = CHR ''.'' then
               (if ellipsis < 0 \<and> i \<noteq> 16 - 4 then None
                else if i + 4 > 16 then None
                else
                  case parseIPv4 s of
                    None \<Rightarrow> None
                  | Some ip4 \<Rightarrow>
                      Some ([], ip[i := ip4 ! 12, i + 1 := ip4 ! 13,
                                   i + 2 := ip4 ! 14, i + 3 := ip4 ! 15], ellipsis, i + 4))
             else
               (let ip' = ip[i := of_nat (n div 256), i + 1 := of_nat n];
                    i' = i + 2;
                    s' = drop c s
                in if length s' = 0 then Some (s', ip', ellipsis, i')
                   else if s' ! 0 \<noteq> CHR '':'' \<or> length s' = 1 then None
                   else
                     (let s'' = drop 1 s' in
                      if s'' ! 0 = CHR '':'' then
                        (if ellipsis \<ge> 0 then None
                         else if length (drop 1 s'') = 0 then Some (drop 1 s'', ip', int i', i')
                         else parseIPv6Loop (drop 1 s'') ip' (int i') i')
                      else parseIPv6Loop s'' ip' ellipsis i')))
      else Some (s, ip, ellipsis, i))"
  by pat_completeness auto
termination
  by (relation "measure (\<lambda>(s, ip, ellipsis, i). 16 - i)") auto

declare parseIPv6Loop.simps [simp del]

text \<open>
  \<open>parseIPv6\<close>: a leading \<open>::\<close>, the loop, and the expansion of the ellipsis, which
  moves the groups read after it to the end of the address and zeroes the gap.
\<close>

definition parseIPv6Tail :: "(string \<times> 8 word list \<times> int \<times> nat) option \<Rightarrow> IP option" where
  "parseIPv6Tail r =
     (case r of
        None \<Rightarrow> None
      | Some (s, ip, ellipsis, i) \<Rightarrow>
          if length s \<noteq> 0 then None
          else if i < 16 then
            (if ellipsis < 0 then None
             else Some (take (nat ellipsis) ip @ replicate (16 - i) 0 @
                        take (i - nat ellipsis) (drop (nat ellipsis) ip)))
          else if ellipsis \<ge> 0 then None
          else Some ip)"

definition parseIPv6 :: "string \<Rightarrow> IP option" where
  "parseIPv6 s =
     (let ip = replicate 16 0 in
      if length s \<ge> 2 \<and> s ! 0 = CHR '':'' \<and> s ! 1 = CHR '':'' then
        (if length (drop 2 s) = 0 then Some ip
         else parseIPv6Tail (parseIPv6Loop (drop 2 s) ip 0 0))
      else parseIPv6Tail (parseIPv6Loop s ip (- 1) 0))"

fun parseIPScan :: "string \<Rightarrow> string \<Rightarrow> IP option" where
  "parseIPScan [] s = None"
| "parseIPScan (c # rest) s =
     (if c = CHR ''.'' then parseIPv4 s
      else if c = CHR '':'' then parseIPv6 s
      else parseIPScan rest s)"

definition ParseIP :: "string \<Rightarrow> IP option" where
  "ParseIP s = parseIPScan s s"

definition matchURIConstraint :: "'a stdlib_scheme \<Rightarrow> URL \<Rightarrow> string \<Rightarrow> matchResult" where
  "matchURIConstraint L uri constraint =
     (let host = Host uri in
      if host = [] then
        (False, Some (''URI with empty host ('' @ Quote L (URIString uri) @
                      '') cannot be matched against constraints''))
      else
        case (if contains host '':'' \<and> \<not> hasSuffix host '']'' then
                (case SplitHostPort (Host uri) of
                   Inl err \<Rightarrow> Inl err
                 | Inr (h, port) \<Rightarrow> Inr h)
              else Inr host) of
          Inl err \<Rightarrow> (False, Some err)
        | Inr host' \<Rightarrow>
            if (hasPrefix host' ''['' \<and> hasSuffix host' '']'') \<or> ParseIP host' \<noteq> None then
              (False, Some (''URI with IP ('' @ Quote L (URIString uri) @
                            '') cannot be matched against constraints''))
            else matchDomainConstraint L host' constraint)"

section \<open>checkNameConstraints\<close>

text \<open>The reasons of \<open>crypto/x509\<close>'s \<open>InvalidReason\<close>, and the package's error type.\<close>

datatype InvalidReason =
  NotAuthorizedToSign
| Expired
| CANotAuthorizedForThisName
| TooManyIntermediates
| IncompatibleUsage
| NameMismatch
| NameConstraintsWithoutSANs
| UnconstrainedName
| TooManyConstraints
| CANotAuthorizedForExtKeyUsage

record CertificateInvalidError =
  Reason :: InvalidReason
  Detail :: string

text \<open>
  The two details \<open>checkNameConstraints\<close> formats itself:
  \<open>fmt.Sprintf("%s %q is excluded by constraint %q", nameType, name, constraint)\<close> and
  \<open>fmt.Sprintf("%s %q is not permitted by any constraint", nameType, name)\<close>. The last
  argument of \<open>excludedDetail\<close> is the constraint under the verb \<open>%q\<close>.
\<close>

definition excludedDetail :: "'a stdlib_scheme \<Rightarrow> string \<Rightarrow> string \<Rightarrow> string \<Rightarrow> string" where
  "excludedDetail L nameType name quotedConstraint =
     nameType @ '' '' @ Quote L name @ '' is excluded by constraint '' @ quotedConstraint"

definition notPermittedDetail :: "'a stdlib_scheme \<Rightarrow> string \<Rightarrow> string \<Rightarrow> string" where
  "notPermittedDetail L nameType name =
     nameType @ '' '' @ Quote L name @ '' is not permitted by any constraint''"

text \<open>
  The loop over the excluded list. \<open>quoted\<close> is the verb \<open>%q\<close> on a constraint of the
  list's element type (the source reads the lists through \<open>reflect\<close>).
\<close>

fun excludedLoop ::
  "'a stdlib_scheme \<Rightarrow> ('c \<Rightarrow> string) \<Rightarrow> string \<Rightarrow> string \<Rightarrow> 'p \<Rightarrow> ('p \<Rightarrow> 'c \<Rightarrow> matchResult)
     \<Rightarrow> 'c list \<Rightarrow> CertificateInvalidError option" where
  "excludedLoop L quoted nameType name parsedName match [] = None"
| "excludedLoop L quoted nameType name parsedName match (constraint # rest) =
     (case match parsedName constraint of
        (m, Some err) \<Rightarrow> Some \<lparr>Reason = CANotAuthorizedForThisName, Detail = err\<rparr>
      | (m, None) \<Rightarrow>
          if m then
            Some \<lparr>Reason = CANotAuthorizedForThisName,
                  Detail = excludedDetail L nameType name (quoted constraint)\<rparr>
          else excludedLoop L quoted nameType name parsedName match rest)"

text \<open>
  The loop over the permitted list, from the current value of \<open>ok\<close>: an error of the
  matcher returns at once (\<open>Inl\<close>), a match breaks out of the loop, the end of the list
  leaves the last value of \<open>ok\<close>.
\<close>

fun permittedLoop ::
  "'p \<Rightarrow> ('p \<Rightarrow> 'c \<Rightarrow> matchResult) \<Rightarrow> bool \<Rightarrow> 'c list \<Rightarrow> CertificateInvalidError + bool" where
  "permittedLoop parsedName match ok [] = Inr ok"
| "permittedLoop parsedName match ok (constraint # rest) =
     (case match parsedName constraint of
        (ok', Some err) \<Rightarrow> Inl \<lparr>Reason = CANotAuthorizedForThisName, Detail = err\<rparr>
      | (ok', None) \<Rightarrow>
          if ok' then Inr ok' else permittedLoop parsedName match ok' rest)"

definition checkNameConstraints ::
  "'a stdlib_scheme \<Rightarrow> ('c \<Rightarrow> string) \<Rightarrow> string \<Rightarrow> string \<Rightarrow> 'p \<Rightarrow> ('p \<Rightarrow> 'c \<Rightarrow> matchResult)
     \<Rightarrow> 'c list \<Rightarrow> 'c list \<Rightarrow> CertificateInvalidError option" where
  "checkNameConstraints L quoted nameType name parsedName match permitted excluded =
     (case excludedLoop L quoted nameType name parsedName match excluded of
        Some e \<Rightarrow> Some e
      | None \<Rightarrow>
          (case permittedLoop parsedName match True permitted of
             Inl e \<Rightarrow> Some e
           | Inr ok \<Rightarrow>
               if \<not> ok then
                 Some \<lparr>Reason = CANotAuthorizedForThisName,
                       Detail = notPermittedDetail L nameType name\<rparr>
               else None))"

section \<open>NamePolicyEngine and validateNames\<close>

text \<open>
  The engine's eight constraint lists (its \<open>options\<close> are read only while it is built).
\<close>

record NamePolicyEngine =
  permittedDNSDomains :: "string list"
  excludedDNSDomains :: "string list"
  permittedIPRanges :: "IPNet list"
  excludedIPRanges :: "IPNet list"
  permittedEmailAddresses :: "string list"
  excludedEmailAddresses :: "string list"
  permittedURIDomains :: "string list"
  excludedURIDomains :: "string list"

text \<open>
  The errors \<open>validateNames\<close> returns: one made by \<open>errors.Errorf\<close> or \<open>fmt.Errorf\<close>,
  which is its message, or the \<open>CertificateInvalidError\<close> of \<open>checkNameConstraints\<close>.
\<close>

datatype error =
  MessageError string
| InvalidError CertificateInvalidError

text \<open>
  The verb \<open>%q\<close> on a value of the struct \<open>rfc2821Mailbox\<close>: its fields, each under
  \<open>%q\<close>, between braces and separated by a space.
\<close>

definition quotedMailbox :: "'a stdlib_scheme \<Rightarrow> rfc2821Mailbox \<Rightarrow> string" where
  "quotedMailbox L mailbox = ''{'' @ Quote L (local mailbox) @ '' '' @ Quote L (domain mailbox) @ ''}''"

text \<open>The four loops of \<open>validateNames\<close>; each returns at the first error.\<close>

fun validateDNSNames :: "'a stdlib_scheme \<Rightarrow> NamePolicyEngine \<Rightarrow> string list \<Rightarrow> error option" where
  "validateDNSNames L e [] = None"
| "validateDNSNames L e (dns # rest) =
     (case domainToReverseLabels dns of
        None \<Rightarrow> Some (MessageError (''cannot parse dns '' @ Quote L dns))
      | Some labels \<Rightarrow>
          (case checkNameConstraints L (Quote L) ''dns'' dns dns (matchDomainConstraint L)
                  (permittedDNSDomains e) (excludedDNSDomains e) of
             Some err \<Rightarrow> Some (InvalidError err)
           | None \<Rightarrow> validateDNSNames L e rest))"

fun validateIPs :: "'a stdlib_scheme \<Rightarrow> NamePolicyEngine \<Rightarrow> IP list \<Rightarrow> error option" where
  "validateIPs L e [] = None"
| "validateIPs L e (ip # rest) =
     (case checkNameConstraints L (\<lambda>n. Quote L (IPNetString L n)) ''ip'' (IPString L ip) ip
             matchIPConstraint (permittedIPRanges e) (excludedIPRanges e) of
        Some err \<Rightarrow> Some (InvalidError err)
      | None \<Rightarrow> validateIPs L e rest)"

fun validateEmailAddresses ::
  "'a stdlib_scheme \<Rightarrow> NamePolicyEngine \<Rightarrow> string list \<Rightarrow> error option" where
  "validateEmailAddresses L e [] = None"
| "validateEmailAddresses L e (email # rest) =
     (case parseRFC2821Mailbox email of
        (mailbox, ok) \<Rightarrow>
          if \<not> ok then Some (MessageError (''cannot parse rfc822Name '' @ quotedMailbox L mailbox))
          else
            (case checkNameConstraints L (Quote L) ''email'' email mailbox (matchEmailConstraint L)
                    (permittedEmailAddresses e) (excludedEmailAddresses e) of
               Some err \<Rightarrow> Some (InvalidError err)
             | None \<Rightarrow> validateEmailAddresses L e rest))"

fun validateURIs :: "'a stdlib_scheme \<Rightarrow> NamePolicyEngine \<Rightarrow> URL list \<Rightarrow> error option" where
  "validateURIs L e [] = None"
| "validateURIs L e (uri # rest) =
     (case checkNameConstraints L (Quote L) ''uri'' (URIString uri) uri (matchURIConstraint L)
             (permittedURIDomains e) (excludedURIDomains e) of
        Some err \<Rightarrow> Some (InvalidError err)
      | None \<Rightarrow> validateURIs L e rest)"

definition validateNames ::
  "'a stdlib_scheme \<Rightarrow> NamePolicyEngine \<Rightarrow> string list \<Rightarrow> IP list \<Rightarrow> string list \<Rightarrow> URL list
     \<Rightarrow> error option" where
  "validateNames L e dnsNames ips emailAddresses uris =
     (case validateDNSNames L e dnsNames of
        Some err \<Rightarrow> Some err
      | None \<Rightarrow>
          (case validateIPs L e ips of
             Some err \<Rightarrow> Some err
           | None \<Rightarrow>
               (case validateEmailAddresses L e emailAddresses of
                  Some err \<Rightarrow> Some err
                | None \<Rightarrow> validateURIs L e uris)))"

text \<open>
  \<open>plainLib\<close> is the library on the concrete inputs of this theory: \<open>strconv.Quote\<close> puts
  a string of printable ASCII characters with no double quote and no backslash between double
  quotes unchanged. The renderings of addresses and networks are not evaluated anywhere.
\<close>

definition plainLib :: stdlib where
  "plainLib = \<lparr>Quote = (\<lambda>s. [CHR 0x22] @ s @ [CHR 0x22]),
               IPString = (\<lambda>ip. []), IPNetString = (\<lambda>n. [])\<rparr>"

text \<open>The engine \<open>New()\<close> returns when it is given no option: every list is empty.\<close>

definition emptyEngine :: NamePolicyEngine where
  "emptyEngine = \<lparr>permittedDNSDomains = [], excludedDNSDomains = [],
                   permittedIPRanges = [], excludedIPRanges = [],
                   permittedEmailAddresses = [], excludedEmailAddresses = [],
                   permittedURIDomains = [], excludedURIDomains = []\<rparr>"

section \<open>The labels of a name\<close>

text \<open>
  \<open>splitDots\<close> cuts a string at its dots and loses nothing: joining the segments with
  dots gives the string back, and no segment holds a dot. The loop of
  \<open>domainToReverseLabels\<close>, which cuts at the last dot until nothing is left, collects
  the labels of the string from the last to the first. So \<open>domainToReverseLabels\<close>
  returns the reversed labels of a name whose labels are all valid, and fails on any
  other name.
\<close>

lemma splitDots_nonempty: "splitDots s \<noteq> []"
  by (induction s) (auto split: list.splits)

lemma splitDots_append_dot: "splitDots (a @ CHR ''.'' # b) = splitDots a @ splitDots b"
  using splitDots_nonempty by (induction a) (auto split: list.splits)

lemma splitDots_no_dot: "CHR ''.'' \<notin> set b \<Longrightarrow> splitDots b = [b]"
  by (induction b) auto

lemma splitDots_join: "joinDots (splitDots s) = s"
proof (induction s)
  case Nil
  show ?case by simp
next
  case (Cons c s)
  obtain seg rest where sr: "splitDots s = seg # rest"
    using splitDots_nonempty [of s] by (cases "splitDots s") auto
  with Cons show ?case
    by (cases rest) auto
qed

lemma splitDots_segments: "seg \<in> set (splitDots s) \<Longrightarrow> CHR ''.'' \<notin> set seg"
proof (induction s arbitrary: seg)
  case Nil
  then show ?case by simp
next
  case (Cons c s)
  obtain x rest where sr: "splitDots s = x # rest"
    using splitDots_nonempty [of s] by (cases "splitDots s") auto
  with Cons show ?case
    by (auto split: if_splits)
qed

lemma labelsOf_Nil: "labelsOf [] = []"
  by (simp add: labelsOf_def)

lemma labelsOf_no_dot: "d \<noteq> [] \<Longrightarrow> CHR ''.'' \<notin> set d \<Longrightarrow> labelsOf d = [d]"
  by (simp add: labelsOf_def splitDots_no_dot)

lemma labelsOf_append_dot:
  "CHR ''.'' \<notin> set b \<Longrightarrow> labelsOf (a @ CHR ''.'' # b) = labelsOf a @ [b]"
  using splitDots_nonempty [of a]
  by (cases "splitDots a") (auto simp: labelsOf_def splitDots_append_dot splitDots_no_dot)

text \<open>
  The labels of a name are segments of it, so none holds a dot, and joined with dots
  they give the name back, less its leading dot if it has one.
\<close>

lemma labelsOf_subset: "set (labelsOf d) \<subseteq> set (splitDots d)"
  by (cases "splitDots d") (auto simp: labelsOf_def)

lemma labelsOf_segments: "seg \<in> set (labelsOf d) \<Longrightarrow> CHR ''.'' \<notin> set seg"
  using labelsOf_subset [of d] splitDots_segments [of seg d] by blast

lemma labelsOf_join:
  "joinDots (labelsOf d) = (if d \<noteq> [] \<and> d ! 0 = CHR ''.'' then drop 1 d else d)"
proof (cases "splitDots d")
  case Nil
  then show ?thesis by (simp add: splitDots_nonempty)
next
  case (Cons seg rest)
  have j: "joinDots (seg # rest) = d"
    using splitDots_join [of d] Cons by simp
  show ?thesis
  proof (cases "seg = []")
    case True
    show ?thesis
    proof (cases rest)
      case Nil
      with True j Cons show ?thesis by (simp add: labelsOf_def)
    next
      case (Cons n r)
      with True j have "d = CHR ''.'' # joinDots rest" by simp
      with True \<open>splitDots d = seg # rest\<close> show ?thesis by (simp add: labelsOf_def)
    qed
  next
    case False
    then obtain c seg' where s: "seg = c # seg'" by (cases seg) auto
    have "CHR ''.'' \<notin> set seg"
      using splitDots_segments [of seg d] Cons by simp
    with s have c: "c \<noteq> CHR ''.''" by auto
    from j s have "d \<noteq> [] \<and> d ! 0 = c"
      by (cases rest) auto
    with c False j Cons show ?thesis by (simp add: labelsOf_def)
  qed
qed

text \<open>
  \<open>strings.LastIndexByte\<close> finds the last dot, and the loop of
  \<open>domainToReverseLabels\<close> cuts the last label off there.
\<close>

lemma lastIndexByte_bounds: "- 1 \<le> lastIndexByte s c \<and> lastIndexByte s c < int (length s)"
  by (induction s) (auto simp: Let_def)

lemma lastIndexByte_none: "lastIndexByte s c = - 1 \<longleftrightarrow> c \<notin> set s"
proof (induction s)
  case Nil
  show ?case by simp
next
  case (Cons x xs)
  with lastIndexByte_bounds [of xs c] show ?case
    by (auto simp: Let_def)
qed

lemma lastIndexByte_cut:
  "lastIndexByte s c \<noteq> - 1 \<Longrightarrow>
   s = take (nat (lastIndexByte s c)) s @ c # drop (nat (lastIndexByte s c + 1)) s \<and>
   c \<notin> set (drop (nat (lastIndexByte s c + 1)) s)"
proof (induction s)
  case Nil
  then show ?case by simp
next
  case (Cons x xs)
  show ?case
  proof (cases "lastIndexByte xs c = - 1")
    case True
    with Cons.prems have "x = c" "lastIndexByte (x # xs) c = 0"
      by (auto simp: Let_def split: if_splits)
    with True show ?thesis
      by (simp add: lastIndexByte_none)
  next
    case False
    with lastIndexByte_bounds [of xs c] have nn: "0 \<le> lastIndexByte xs c"
      by linarith
    from False have r: "lastIndexByte (x # xs) c = lastIndexByte xs c + 1"
      by (simp add: Let_def)
    from nn have n1: "nat (lastIndexByte xs c + 1) = Suc (nat (lastIndexByte xs c))"
      and n2: "nat (lastIndexByte xs c + 1 + 1) = Suc (nat (lastIndexByte xs c + 1))"
      by linarith+
    from Cons.IH [OF False] show ?thesis
      unfolding r n2 n1 by simp
  qed
qed

lemma splitLabels_labelsOf: "splitLabels d acc = acc @ rev (labelsOf d)"
proof (induction d acc rule: splitLabels.induct)
  case (1 d reverseLabels)
  show ?case
  proof (cases "d = []")
    case True
    then show ?thesis by (simp add: labelsOf_Nil)
  next
    case False
    define i where "i = lastIndexByte d (CHR ''.'')"
    show ?thesis
    proof (cases "i = - 1")
      case True
      then have "CHR ''.'' \<notin> set d"
        by (simp add: i_def lastIndexByte_none)
      with False True show ?thesis
        by (subst splitLabels.simps) (simp add: i_def [symmetric] labelsOf_no_dot)
    next
      case found: False
      from lastIndexByte_cut [of d "CHR ''.''"] found
      have cut: "d = take (nat i) d @ CHR ''.'' # drop (nat (i + 1)) d"
        and nodot: "CHR ''.'' \<notin> set (drop (nat (i + 1)) d)"
        by (simp_all add: i_def)
      from False have pos: "0 < length d" by simp
      have ih: "splitLabels (take (nat i) d) (reverseLabels @ [drop (nat (i + 1)) d])
          = (reverseLabels @ [drop (nat (i + 1)) d]) @ rev (labelsOf (take (nat i) d))"
        using "1.IH"(2) [OF pos i_def found] .
      have "labelsOf d = labelsOf (take (nat i) d) @ [drop (nat (i + 1)) d]"
        using labelsOf_append_dot [OF nodot, of "take (nat i) d"] cut by simp
      with ih False found show ?thesis
        by (subst splitLabels.simps) (simp add: i_def [symmetric])
    qed
  qed
qed

lemma labelsValid_iff: "labelsValid ls \<longleftrightarrow> list_all validLabel ls"
  by (induction ls) (auto simp: validLabel_def list_all_iff list_ex_iff not_less not_le)

lemma domainToReverseLabels_labelsOf:
  "domainToReverseLabels d =
     (if list_all validLabel (labelsOf d) then Some (rev (labelsOf d)) else None)"
proof -
  have "splitLabels d [] = rev (labelsOf d)"
    unfolding splitLabels_labelsOf by simp
  moreover have "\<not> list_all validLabel ls" if "0 < length ls" "rev ls ! 0 = []" for ls
  proof -
    from that have "rev ls ! 0 \<in> set (rev ls)"
      by (intro nth_mem) simp
    with that have "[] \<in> set ls" by simp
    then show ?thesis
      by (auto simp: list_all_iff validLabel_def)
  qed
  ultimately show ?thesis
    by (auto simp: domainToReverseLabels_def Let_def labelsValid_iff simp del: splitLabels.simps)
qed

section \<open>Properties of matchDomainConstraint\<close>

text \<open>
  \<open>strings.EqualFold\<close> on bytes is equality after lower-casing, so the loop over the
  constraint's labels compares the lower-cased constraint labels with the first labels
  of the lower-cased reversed domain.
\<close>

lemma foldEqByte_lower: "foldEqByte a b \<longleftrightarrow> toLowerASCII a = toLowerASCII b"
proof -
  define x y :: nat where "x = of_char a" and "y = of_char b"
  define lx ly :: nat where "lx = (if 65 \<le> x \<and> x \<le> 90 then x + 32 else x)"
    and "ly = (if 65 \<le> y \<and> y \<le> 90 then y + 32 else y)"
  have bx: "x < 256" and by': "y < 256"
    by (simp_all add: x_def y_def)
  then have bl: "lx < 256" "ly < 256"
    by (auto simp: lx_def ly_def)
  have ab: "a = b \<longleftrightarrow> x = y"
    by (simp add: x_def y_def)
  have la: "toLowerASCII a = char_of lx" and lb: "toLowerASCII b = char_of ly"
    by (simp_all add: toLowerASCII_def lx_def ly_def x_def y_def)
  have "toLowerASCII a = toLowerASCII b \<longleftrightarrow> lx = ly"
    unfolding la lb using bl by (metis mod_less of_char_of)
  moreover have "foldEqByte a b \<longleftrightarrow>
      (x = y \<or> (65 \<le> min x y \<and> min x y \<le> 90 \<and> max x y = min x y + 32))"
    unfolding foldEqByte_def Let_def x_def [symmetric] y_def [symmetric] using ab by auto
  moreover have "(x = y \<or> (65 \<le> min x y \<and> min x y \<le> 90 \<and> max x y = min x y + 32))
      \<longleftrightarrow> lx = ly"
    unfolding lx_def ly_def min_def max_def by auto
  ultimately show ?thesis by simp
qed

lemma EqualFold_lower: "EqualFold s t \<longleftrightarrow> lowerLabel s = lowerLabel t"
  by (induction s t rule: EqualFold.induct) (simp_all add: lowerLabel_def foldEqByte_lower)

lemma labelsMatch_prefix:
  assumes "length cl \<le> length dl"
  shows "labelsMatch cl dl \<longleftrightarrow> take (length cl) (map lowerLabel dl) = map lowerLabel cl"
proof -
  have "labelsMatch cl dl \<longleftrightarrow> (\<forall>i < length cl. lowerLabel (cl ! i) = lowerLabel (dl ! i))"
    by (auto simp: labelsMatch_def list_all_iff EqualFold_lower)
  also have "\<dots> \<longleftrightarrow> take (length cl) (map lowerLabel dl) = map lowerLabel cl"
    using assms by (auto simp: list_eq_iff_nth_eq)
  finally show ?thesis .
qed

text \<open>
  On the labels in their order in the name, the loop compares the constraint's labels
  with the last labels of the domain. \<open>matchDomainConstraint\<close> is thereby determined
  by the labels of its two arguments.
\<close>

lemma labelsMatch_suffix:
  assumes "length cl \<le> length dl"
  shows "labelsMatch (rev cl) (rev dl) \<longleftrightarrow>
           drop (length dl - length cl) (map lowerLabel dl) = map lowerLabel cl"
proof -
  have "labelsMatch (rev cl) (rev dl) \<longleftrightarrow>
      take (length cl) (rev (map lowerLabel dl)) = rev (map lowerLabel cl)"
    using labelsMatch_prefix [of "rev cl" "rev dl"] assms by (simp add: rev_map)
  then show ?thesis
    by (simp add: take_rev)
qed

lemma matchDomainConstraint_spec:
  assumes "constraint \<noteq> []"
  shows "matchDomainConstraint L d constraint =
           (let c = (if constraint ! 0 = CHR ''.'' then drop 1 constraint else constraint) in
            if \<not> list_all validLabel (labelsOf d)
            then (False, Some (''cannot parse domain '' @ Quote L d))
            else if \<not> list_all validLabel (labelsOf c)
            then (False, Some (''cannot parse domain '' @ Quote L c))
            else (length (labelsOf c) \<le> length (labelsOf d) \<and>
                  (constraint ! 0 = CHR ''.'' \<longrightarrow> length (labelsOf c) \<noteq> length (labelsOf d)) \<and>
                  drop (length (labelsOf d) - length (labelsOf c)) (map lowerLabel (labelsOf d))
                    = map lowerLabel (labelsOf c), None))"
  using assms
  by (auto simp: matchDomainConstraint_def Let_def domainToReverseLabels_labelsOf
        labelsMatch_suffix not_less)

text \<open>
  Claim C3, as amended. For a non-empty constraint without a leading dot, the matcher
  returns true exactly when every label of the domain and of the constraint is valid
  (non-empty, bytes 33..126), the domain has at least as many labels as the constraint,
  and the last labels of the domain are, up to ASCII case, the labels of the
  constraint. The labels are those of the strings themselves: the segments between
  their dots. A true result comes with no error; an invalid label in the domain, or
  else in the constraint, gives false with the error naming the string.
\<close>

theorem matchDomainConstraint_plain_iff:
  assumes "constraint \<noteq> []" and "constraint ! 0 \<noteq> CHR ''.''"
  shows "(fst (matchDomainConstraint L d constraint) \<longleftrightarrow>
            list_all validLabel (labelsOf d) \<and>
            list_all validLabel (labelsOf constraint) \<and>
            length (labelsOf constraint) \<le> length (labelsOf d) \<and>
            drop (length (labelsOf d) - length (labelsOf constraint)) (map lowerLabel (labelsOf d))
              = map lowerLabel (labelsOf constraint)) \<and>
         (fst (matchDomainConstraint L d constraint) \<longrightarrow>
            snd (matchDomainConstraint L d constraint) = None) \<and>
         (\<not> list_all validLabel (labelsOf d) \<longrightarrow>
            matchDomainConstraint L d constraint
              = (False, Some (''cannot parse domain '' @ Quote L d))) \<and>
         (list_all validLabel (labelsOf d) \<and> \<not> list_all validLabel (labelsOf constraint) \<longrightarrow>
            matchDomainConstraint L d constraint
              = (False, Some (''cannot parse domain '' @ Quote L constraint)))"
  using assms by (auto simp: matchDomainConstraint_spec Let_def)

text \<open>
  Claim C3 as stated, for every domain and with no condition on the labels, fails on a
  domain with a label that is not valid. The labels of \<open>a..example.com\<close> are \<open>a\<close>, the
  empty label, \<open>example\<close> and \<open>com\<close>: there are at least as many as in the constraint
  \<open>example.com\<close> and the last two are the constraint's, yet the matcher returns false,
  with an error. The same holds of \<open>my host.example.com\<close>, whose first label has a
  space.
\<close>

theorem matchDomainConstraint_invalid_label_counterexample:
  "labelsOf ''a..example.com'' = [''a'', [], ''example'', ''com''] \<and>
   labelsOf ''example.com'' = [''example'', ''com''] \<and>
   length (labelsOf ''example.com'') \<le> length (labelsOf ''a..example.com'') \<and>
   drop (length (labelsOf ''a..example.com'') - length (labelsOf ''example.com''))
       (map lowerLabel (labelsOf ''a..example.com''))
     = map lowerLabel (labelsOf ''example.com'') \<and>
   matchDomainConstraint plainLib ''a..example.com'' ''example.com''
     = (False, Some (''cannot parse domain '' @ Quote plainLib ''a..example.com'')) \<and>
   labelsOf ''my host.example.com'' = [''my host'', ''example'', ''com''] \<and>
   drop (length (labelsOf ''my host.example.com'') - length (labelsOf ''example.com''))
       (map lowerLabel (labelsOf ''my host.example.com''))
     = map lowerLabel (labelsOf ''example.com'') \<and>
   matchDomainConstraint plainLib ''my host.example.com'' ''example.com''
     = (False, Some (''cannot parse domain '' @ Quote plainLib ''my host.example.com''))"
  by code_simp

text \<open>
  Claim C3 (amended) at concrete inputs: \<open>www.Example.com\<close> matches \<open>example.COM\<close>;
  \<open>evil.org\<close> does not match \<open>example.com\<close>, nor does \<open>example.com\<close> match the longer
  \<open>www.example.com\<close>, nor \<open>badexample.com\<close> the constraint \<open>example.com\<close>; and a
  domain with an empty label gives the error.
\<close>

theorem matchDomainConstraint_plain_iff_witness:
  "matchDomainConstraint plainLib ''www.Example.com'' ''example.COM'' = (True, None) \<and>
   \<not> fst (matchDomainConstraint plainLib ''evil.org'' ''example.com'') \<and>
   \<not> fst (matchDomainConstraint plainLib ''example.com'' ''www.example.com'') \<and>
   \<not> fst (matchDomainConstraint plainLib ''badexample.com'' ''example.com'') \<and>
   matchDomainConstraint plainLib ''a..example.com'' ''example.com''
     = (False, Some (''cannot parse domain '' @ Quote plainLib ''a..example.com''))"
proof -
  have c: "''example.COM'' \<noteq> []" "''example.COM'' ! 0 \<noteq> CHR ''.''"
    and e: "''example.com'' \<noteq> []" "''example.com'' ! 0 \<noteq> CHR ''.''"
    and w: "''www.example.com'' \<noteq> []" "''www.example.com'' ! 0 \<noteq> CHR ''.''"
    by simp_all
  have l: "labelsOf ''www.Example.com'' = [''www'', ''Example'', ''com'']"
    "labelsOf ''example.COM'' = [''example'', ''COM'']"
    "labelsOf ''evil.org'' = [''evil'', ''org'']"
    "labelsOf ''example.com'' = [''example'', ''com'']"
    "labelsOf ''www.example.com'' = [''www'', ''example'', ''com'']"
    "labelsOf ''badexample.com'' = [''badexample'', ''com'']"
    "labelsOf ''a..example.com'' = [''a'', [], ''example'', ''com'']"
    by code_simp+
  have v: "list_all validLabel [''www'', ''Example'', ''com'']"
    "list_all validLabel [''example'', ''COM'']"
    "\<not> list_all validLabel [''a'', [], ''example'', ''com'']"
    by code_simp+
  have f: "map lowerLabel [''Example'', ''com''] = map lowerLabel [''example'', ''COM'']"
    "map lowerLabel [''evil'', ''org''] \<noteq> map lowerLabel [''example'', ''com'']"
    "map lowerLabel [''badexample'', ''com''] \<noteq> map lowerLabel [''example'', ''com'']"
    by code_simp+
  have one: "matchDomainConstraint plainLib ''www.Example.com'' ''example.COM'' = (True, None)"
    using matchDomainConstraint_plain_iff [OF c, of plainLib "''www.Example.com''"] l v f
    by (simp add: prod_eq_iff)
  have two: "\<not> fst (matchDomainConstraint plainLib ''evil.org'' ''example.com'')"
    using matchDomainConstraint_plain_iff [OF e, of plainLib "''evil.org''"] l f by simp
  have three: "\<not> fst (matchDomainConstraint plainLib ''example.com'' ''www.example.com'')"
    using matchDomainConstraint_plain_iff [OF w, of plainLib "''example.com''"] l by simp
  have four: "\<not> fst (matchDomainConstraint plainLib ''badexample.com'' ''example.com'')"
    using matchDomainConstraint_plain_iff [OF e, of plainLib "''badexample.com''"] l f by simp
  have five: "matchDomainConstraint plainLib ''a..example.com'' ''example.com''
     = (False, Some (''cannot parse domain '' @ Quote plainLib ''a..example.com''))"
    using matchDomainConstraint_plain_iff [OF e, of plainLib "''a..example.com''"] l v by auto
  from one two three four five show ?thesis by simp
qed

text \<open>
  Claim C4. For a constraint with a leading dot, stripped of that dot: a domain with
  exactly as many labels as the stripped constraint is never matched, whatever the
  labels are; and the matcher returns true exactly when every label of the domain and of
  the stripped constraint is valid, the domain has strictly more labels, and its last
  labels are, up to ASCII case, those of the stripped constraint. The labels are those
  of the strings themselves: the segments between their dots, an empty segment before a
  leading dot not counted.
\<close>

theorem matchDomainConstraint_leading_dot:
  assumes "constraint \<noteq> []" and "constraint ! 0 = CHR ''.''"
  shows "(length (labelsOf d) = length (labelsOf (drop 1 constraint)) \<longrightarrow>
            fst (matchDomainConstraint L d constraint) = False) \<and>
         (fst (matchDomainConstraint L d constraint) \<longleftrightarrow>
            list_all validLabel (labelsOf d) \<and>
            list_all validLabel (labelsOf (drop 1 constraint)) \<and>
            length (labelsOf (drop 1 constraint)) < length (labelsOf d) \<and>
            drop (length (labelsOf d) - length (labelsOf (drop 1 constraint)))
                (map lowerLabel (labelsOf d))
              = map lowerLabel (labelsOf (drop 1 constraint))) \<and>
         (fst (matchDomainConstraint L d constraint) \<longrightarrow>
            snd (matchDomainConstraint L d constraint) = None)"
  using assms by (auto simp: matchDomainConstraint_spec Let_def)

text \<open>
  Claim C4 at concrete inputs: \<open>example.com\<close> is not matched by \<open>.example.com\<close>, nor
  \<open>EXAMPLE.com\<close>; \<open>ab.cd\<close> is not matched by \<open>.ab.c\<close>, two labels each;
  \<open>mail.example.com\<close> is matched by \<open>.example.com\<close>. The stripped constraint \<open>.com\<close>
  of \<open>..com\<close> has the one label \<open>com\<close>, so \<open>example.com\<close>, with two, is matched by
  \<open>..com\<close>, and \<open>com\<close>, with one, is not.
\<close>

theorem matchDomainConstraint_leading_dot_witness:
  "fst (matchDomainConstraint plainLib ''example.com'' ''.example.com'') = False \<and>
   fst (matchDomainConstraint plainLib ''EXAMPLE.com'' ''.example.com'') = False \<and>
   fst (matchDomainConstraint plainLib ''ab.cd'' ''.ab.c'') = False \<and>
   matchDomainConstraint plainLib ''mail.example.com'' ''.example.com'' = (True, None) \<and>
   labelsOf ''.com'' = [''com''] \<and>
   matchDomainConstraint plainLib ''example.com'' ''..com'' = (True, None) \<and>
   fst (matchDomainConstraint plainLib ''com'' ''..com'') = False"
proof -
  have c: "''.example.com'' \<noteq> []" "''.example.com'' ! 0 = CHR ''.''"
    and b: "''.ab.c'' \<noteq> []" "''.ab.c'' ! 0 = CHR ''.''"
    and o: "''..com'' \<noteq> []" "''..com'' ! 0 = CHR ''.''"
    by simp_all
  have l: "labelsOf ''example.com'' = [''example'', ''com'']"
    "labelsOf ''EXAMPLE.com'' = [''EXAMPLE'', ''com'']"
    "labelsOf (drop 1 ''.example.com'') = [''example'', ''com'']"
    "labelsOf ''ab.cd'' = [''ab'', ''cd'']"
    "labelsOf (drop 1 ''.ab.c'') = [''ab'', ''c'']"
    "labelsOf ''mail.example.com'' = [''mail'', ''example'', ''com'']"
    "labelsOf (drop 1 ''..com'') = [''com'']"
    "labelsOf ''.com'' = [''com'']"
    "labelsOf ''com'' = [''com'']"
    by code_simp+
  have v: "list_all validLabel [''mail'', ''example'', ''com'']"
    "list_all validLabel [''example'', ''com'']" "list_all validLabel [''com'']"
    by code_simp+
  have one: "fst (matchDomainConstraint plainLib ''example.com'' ''.example.com'') = False"
    using matchDomainConstraint_leading_dot [OF c, of "''example.com''" plainLib] l by simp
  have two: "fst (matchDomainConstraint plainLib ''EXAMPLE.com'' ''.example.com'') = False"
    using matchDomainConstraint_leading_dot [OF c, of "''EXAMPLE.com''" plainLib] l by simp
  have three: "fst (matchDomainConstraint plainLib ''ab.cd'' ''.ab.c'') = False"
    using matchDomainConstraint_leading_dot [OF b, of "''ab.cd''" plainLib] l by simp
  have four: "matchDomainConstraint plainLib ''mail.example.com'' ''.example.com'' = (True, None)"
    using matchDomainConstraint_leading_dot [OF c, of "''mail.example.com''" plainLib] l v
    by (simp add: prod_eq_iff)
  have five: "matchDomainConstraint plainLib ''example.com'' ''..com'' = (True, None)"
    using matchDomainConstraint_leading_dot [OF o, of "''example.com''" plainLib] l v
    by (simp add: prod_eq_iff)
  have six: "fst (matchDomainConstraint plainLib ''com'' ''..com'') = False"
    using matchDomainConstraint_leading_dot [OF o, of "''com''" plainLib] l by simp
  from one two three four five six l show ?thesis by simp
qed

section \<open>Properties of parseRFC2821Mailbox and validateNames\<close>

text \<open>
  The tests of the quoted-string loop are membership in the two byte sets. The loop
  reads through a run of unescaped bytes and quoted pairs, collecting the local part
  the run denotes, and goes on with what follows; when it succeeds, it has read such a
  run up to a closing quote.
\<close>

lemma qtext_unescapedByte: "qtext c \<longleftrightarrow> unescapedByte c"
  by (auto simp: qtext_def unescapedByte_def Let_def)

lemma quotedPairText_pairByte: "quotedPairText c \<longleftrightarrow> pairByte c"
  by (auto simp: quotedPairText_def pairByte_def Let_def)

lemma unescapedByte_not_delim: "unescapedByte c \<Longrightarrow> c \<noteq> CHR 0x22 \<and> c \<noteq> CHR 0x5C"
  by (auto simp: unescapedByte_def)

lemma quotedString_qcontent:
  "qcontent pre \<Longrightarrow> quotedString (pre @ rest) acc = quotedString rest (acc @ unquote pre)"
proof (induction pre arbitrary: acc rule: qcontent.induct)
  case 1
  then show ?case by simp
next
  case (2 c s)
  show ?case
  proof (cases "c = CHR 0x5C")
    case True
    with "2.prems" obtain e s' where s: "s = e # s'" and e: "pairByte e" and q: "qcontent s'"
      by (auto split: list.splits)
    from "2.IH"(1) [OF True s q, of "acc @ [e]"] True s e show ?thesis
      by (simp add: quotedPairText_pairByte)
  next
    case False
    with "2.prems" have t: "unescapedByte c" and q: "qcontent s"
      by auto
    from "2.IH"(2) [OF False q, of "acc @ [c]"] False t unescapedByte_not_delim [OF t]
    show ?thesis
      by (simp add: qtext_unescapedByte)
  qed
qed

lemma parse_quoted:
  "parseRFC2821Mailbox (CHR 0x22 # s) =
     (case quotedString s [] of
        None \<Rightarrow> (zeroMailbox, False)
      | Some (localPartBytes, rest) \<Rightarrow>
          if rest = [] \<or> rest ! 0 \<noteq> CHR ''@'' then (zeroMailbox, False)
          else (case domainToReverseLabels (drop 1 rest) of
                 None \<Rightarrow> (zeroMailbox, False)
               | Some labels \<Rightarrow> (\<lparr>local = localPartBytes, domain = drop 1 rest\<rparr>, True)))"
  by (auto simp: parseRFC2821Mailbox_def Let_def split: option.splits)

lemma labels_a: "domainToReverseLabels ''a'' = Some [''a'']"
  by code_simp



lemma quotedString_Some:
  "quotedString s acc = Some (l, rest) \<Longrightarrow>
     \<exists>pre. s = pre @ CHR 0x22 # rest \<and> qcontent pre \<and> l = acc @ unquote pre"
proof (induction s acc rule: quotedString.induct)
  case (1 localPartBytes)
  then show ?case by simp
next
  case (2 c inp localPartBytes)
  show ?case
  proof (cases "c = CHR 0x22")
    case True
    with "2.prems" have "c # inp = [] @ CHR 0x22 # rest \<and> qcontent [] \<and> l = localPartBytes @ unquote []"
      by simp
    then show ?thesis by blast
  next
    case nq: False
    show ?thesis
    proof (cases "c = CHR 0x5C")
      case True
      with nq "2.prems" obtain e inp' where i: "inp = e # inp'" and e: "quotedPairText e"
        and r: "quotedString inp' (localPartBytes @ [e]) = Some (l, rest)"
        by (auto split: list.splits if_splits)
      from "2.IH"(1) [OF nq True i e r] obtain pre where
        p: "inp' = pre @ CHR 0x22 # rest" "qcontent pre" "l = (localPartBytes @ [e]) @ unquote pre"
        by blast
      with True i e have "c # inp = (c # e # pre) @ CHR 0x22 # rest \<and> qcontent (c # e # pre) \<and>
          l = localPartBytes @ unquote (c # e # pre)"
        by (simp add: quotedPairText_pairByte)
      then show ?thesis by blast
    next
      case nb: False
      with nq "2.prems" have t: "qtext c"
        and r: "quotedString inp (localPartBytes @ [c]) = Some (l, rest)"
        by (auto split: if_splits)
      from "2.IH"(2) [OF nq nb t r] obtain pre where
        p: "inp = pre @ CHR 0x22 # rest" "qcontent pre" "l = (localPartBytes @ [c]) @ unquote pre"
        by blast
      with nb t have "c # inp = (c # pre) @ CHR 0x22 # rest \<and> qcontent (c # pre) \<and>
          l = localPartBytes @ unquote (c # pre)"
        by (simp add: qtext_unescapedByte)
      then show ?thesis by blast
    qed
  qed
qed

lemma parse_quoted_ok:
  "snd (parseRFC2821Mailbox (CHR 0x22 # s)) \<longleftrightarrow>
     (\<exists>pre dom. s = pre @ CHR 0x22 # CHR ''@'' # dom \<and> qcontent pre \<and>
        list_all validLabel (labelsOf dom))"
proof
  assume ok: "snd (parseRFC2821Mailbox (CHR 0x22 # s))"
  then obtain l rest where q: "quotedString s [] = Some (l, rest)"
    by (auto simp: parse_quoted zeroMailbox_def split: option.splits)
  with ok have r: "rest \<noteq> []" "rest ! 0 = CHR ''@''" "domainToReverseLabels (drop 1 rest) \<noteq> None"
    by (auto simp: parse_quoted split: option.splits if_splits)
  then obtain dom where d: "rest = CHR ''@'' # dom"
    by (cases rest) auto
  from quotedString_Some [OF q] obtain pre where p: "s = pre @ CHR 0x22 # rest" "qcontent pre"
    by blast
  from r d have "list_all validLabel (labelsOf dom)"
    by (simp add: domainToReverseLabels_labelsOf split: if_splits)
  with p d show "\<exists>pre dom. s = pre @ CHR 0x22 # CHR ''@'' # dom \<and> qcontent pre \<and>
        list_all validLabel (labelsOf dom)"
    by blast
next
  assume "\<exists>pre dom. s = pre @ CHR 0x22 # CHR ''@'' # dom \<and> qcontent pre \<and>
        list_all validLabel (labelsOf dom)"
  then obtain pre dom where s: "s = pre @ CHR 0x22 # CHR ''@'' # dom" and q: "qcontent pre"
    and v: "list_all validLabel (labelsOf dom)"
    by blast
  from q have "quotedString (pre @ CHR 0x22 # CHR ''@'' # dom) [] = Some (unquote pre, CHR ''@'' # dom)"
    by (simp add: quotedString_qcontent)
  with s v show "snd (parseRFC2821Mailbox (CHR 0x22 # s))"
    by (simp add: parse_quoted domainToReverseLabels_labelsOf)
qed

text \<open>
  Claim C7, as amended. After the opening quote the bytes accepted unescaped are those
  of \<open>{11,12,32,33,127}\<close>, \<open>1..8\<close>, \<open>14..31\<close>, \<open>35..91\<close> and \<open>93..126\<close>, at every
  position: a run \<open>pre\<close> of such bytes and of quoted pairs, closed by a quote and
  followed by \<open>@\<close> and a domain with valid labels, is parsed, its local part being the
  bytes of \<open>pre\<close>, each pair without its backslash. After any such run, a byte that is
  not in the set, not the quote and not the backslash makes the parse fail, whatever
  follows; so does a backslash before a byte that no quoted pair may hold, and so does
  the end of the input before the closing quote, also right after a backslash. For the
  quoted string of a single byte this is an equivalence, and an input with an opening
  quote is parsed exactly when it has the shape described first.
\<close>

theorem quoted_qtext_bytes:
  "(\<forall>pre dom. qcontent pre \<and> list_all validLabel (labelsOf dom) \<longrightarrow>
       parseRFC2821Mailbox (CHR 0x22 # pre @ CHR 0x22 # CHR ''@'' # dom)
         = (\<lparr>local = unquote pre, domain = dom\<rparr>, True)) \<and>
   (\<forall>pre c rest. qcontent pre \<and> c \<noteq> CHR 0x22 \<and> c \<noteq> CHR 0x5C \<and>
       (of_char c :: nat) \<notin> {11, 12, 32, 33, 127} \<union> {1..8} \<union> {14..31} \<union> {35..91} \<union> {93..126} \<longrightarrow>
       parseRFC2821Mailbox (CHR 0x22 # pre @ c # rest) = (zeroMailbox, False)) \<and>
   (\<forall>pre e rest. qcontent pre \<and> (of_char e :: nat) \<notin> {11, 12} \<union> {1..9} \<union> {14..127} \<longrightarrow>
       parseRFC2821Mailbox (CHR 0x22 # pre @ CHR 0x5C # e # rest) = (zeroMailbox, False)) \<and>
   (\<forall>pre. qcontent pre \<longrightarrow>
       parseRFC2821Mailbox (CHR 0x22 # pre) = (zeroMailbox, False) \<and>
       parseRFC2821Mailbox (CHR 0x22 # pre @ [CHR 0x5C]) = (zeroMailbox, False)) \<and>
   (\<forall>c. c \<noteq> CHR 0x22 \<and> c \<noteq> CHR 0x5C \<longrightarrow>
       parseRFC2821Mailbox ([CHR 0x22, c, CHR 0x22] @ ''@a'') =
         (if (of_char c :: nat) \<in> {11, 12, 32, 33, 127} \<union> {1..8} \<union> {14..31} \<union> {35..91} \<union> {93..126}
          then (\<lparr>local = [c], domain = ''a''\<rparr>, True)
          else (zeroMailbox, False))) \<and>
   (\<forall>s. snd (parseRFC2821Mailbox (CHR 0x22 # s)) \<longleftrightarrow>
       (\<exists>pre dom. s = pre @ CHR 0x22 # CHR ''@'' # dom \<and> qcontent pre \<and>
          list_all validLabel (labelsOf dom)))"
proof (intro conjI allI impI)
  fix pre dom
  assume h: "qcontent pre \<and> list_all validLabel (labelsOf dom)"
  then have "quotedString (pre @ CHR 0x22 # CHR ''@'' # dom) [] = Some (unquote pre, CHR ''@'' # dom)"
    by (simp add: quotedString_qcontent)
  with h show "parseRFC2821Mailbox (CHR 0x22 # pre @ CHR 0x22 # CHR ''@'' # dom)
         = (\<lparr>local = unquote pre, domain = dom\<rparr>, True)"
    by (simp add: parse_quoted domainToReverseLabels_labelsOf)
next
  fix pre c rest
  assume h: "qcontent pre \<and> c \<noteq> CHR 0x22 \<and> c \<noteq> CHR 0x5C \<and>
       (of_char c :: nat) \<notin> {11, 12, 32, 33, 127} \<union> {1..8} \<union> {14..31} \<union> {35..91} \<union> {93..126}"
  then have nq: "\<not> qtext c"
    by (simp add: qtext_unescapedByte unescapedByte_def)
  from h have "quotedString (pre @ c # rest) [] = quotedString (c # rest) ([] @ unquote pre)"
    by (simp only: quotedString_qcontent)
  with h nq have "quotedString (pre @ c # rest) [] = None"
    by simp
  then show "parseRFC2821Mailbox (CHR 0x22 # pre @ c # rest) = (zeroMailbox, False)"
    by (simp add: parse_quoted)
next
  fix pre e rest
  assume h: "qcontent pre \<and> (of_char e :: nat) \<notin> {11, 12} \<union> {1..9} \<union> {14..127}"
  then have np: "\<not> quotedPairText e"
    by (simp add: quotedPairText_pairByte pairByte_def)
  from h have "quotedString (pre @ CHR 0x5C # e # rest) []
      = quotedString (CHR 0x5C # e # rest) ([] @ unquote pre)"
    by (simp only: quotedString_qcontent)
  with np have "quotedString (pre @ CHR 0x5C # e # rest) [] = None"
    by simp
  then show "parseRFC2821Mailbox (CHR 0x22 # pre @ CHR 0x5C # e # rest) = (zeroMailbox, False)"
    by (simp add: parse_quoted)
next
  fix pre
  assume q: "qcontent pre"
  from quotedString_qcontent [OF q, of "[]" "[]"] have "quotedString pre [] = None"
    by simp
  then show "parseRFC2821Mailbox (CHR 0x22 # pre) = (zeroMailbox, False)"
    by (simp add: parse_quoted)
next
  fix pre
  assume q: "qcontent pre"
  from quotedString_qcontent [OF q, of "[CHR 0x5C]" "[]"]
  have "quotedString (pre @ [CHR 0x5C]) [] = None"
    by simp
  then show "parseRFC2821Mailbox (CHR 0x22 # pre @ [CHR 0x5C]) = (zeroMailbox, False)"
    by (simp add: parse_quoted)
next
  fix c :: char
  assume c: "c \<noteq> CHR 0x22 \<and> c \<noteq> CHR 0x5C"
  then show "parseRFC2821Mailbox ([CHR 0x22, c, CHR 0x22] @ ''@a'') =
         (if (of_char c :: nat) \<in> {11, 12, 32, 33, 127} \<union> {1..8} \<union> {14..31} \<union> {35..91} \<union> {93..126}
          then (\<lparr>local = [c], domain = ''a''\<rparr>, True)
          else (zeroMailbox, False))"
    unfolding unescapedByte_def [symmetric] qtext_unescapedByte [symmetric]
    by (simp add: parse_quoted labels_a)
next
  fix s
  show "snd (parseRFC2821Mailbox (CHR 0x22 # s)) \<longleftrightarrow>
       (\<exists>pre dom. s = pre @ CHR 0x22 # CHR ''@'' # dom \<and> qcontent pre \<and>
          list_all validLabel (labelsOf dom))"
    by (rule parse_quoted_ok)
qed

text \<open>
  Claim C7 as stated leaves the bytes 14..31 out of the set: byte 14 is not in the
  claimed set, is neither the quote nor the backslash, and the mailbox with the quoted
  local part holding it alone is parsed.
\<close>

theorem quoted_qtext_counterexample:
  "(of_char (CHR 0x0E) :: nat) \<notin> {11, 12, 32, 33, 127} \<union> {1..8} \<union> {35..91} \<union> {93..126} \<and>
   CHR 0x0E \<noteq> CHR 0x22 \<and> CHR 0x0E \<noteq> CHR 0x5C \<and>
   parseRFC2821Mailbox ([CHR 0x22, CHR 0x0E, CHR 0x22] @ ''@a'')
     = (\<lparr>local = [CHR 0x0E], domain = ''a''\<rparr>, True)"
  by (simp add: parse_quoted labels_a qtext_def)

text \<open>
  Claim C7 (amended) at concrete inputs: the quoted local parts \<open>ab\<close> and
  \<open>john \"\<dots>doe\<close>, the latter with a quoted pair and byte 31, are parsed; byte 13
  alone is not, a line feed after \<open>ab\<close> fails, escaped or not, and so does a quoted
  string that is never closed.
\<close>

theorem quoted_qtext_bytes_witness:
  "parseRFC2821Mailbox (CHR 0x22 # ''ab'' @ CHR 0x22 # CHR ''@'' # ''a'')
     = (\<lparr>local = ''ab'', domain = ''a''\<rparr>, True) \<and>
   parseRFC2821Mailbox (CHR 0x22 # (''john '' @ [CHR 0x5C, CHR 0x22, CHR 0x1F] @ ''doe'')
                          @ CHR 0x22 # CHR ''@'' # ''example.com'')
     = (\<lparr>local = ''john '' @ [CHR 0x22, CHR 0x1F] @ ''doe'', domain = ''example.com''\<rparr>, True) \<and>
   parseRFC2821Mailbox ([CHR 0x22, CHR 0x0D, CHR 0x22] @ ''@a'') = (zeroMailbox, False) \<and>
   parseRFC2821Mailbox (CHR 0x22 # ''ab'' @ CHR 0x0A # ''c'' @ [CHR 0x22] @ ''@a'') = (zeroMailbox, False) \<and>
   parseRFC2821Mailbox (CHR 0x22 # ''ab'' @ CHR 0x5C # CHR 0x0A # ''c'' @ [CHR 0x22] @ ''@a'')
     = (zeroMailbox, False) \<and>
   parseRFC2821Mailbox (CHR 0x22 # ''bob'') = (zeroMailbox, False)"
proof -
  have q: "qcontent ''ab''" "qcontent ''bob''"
    "qcontent (''john '' @ [CHR 0x5C, CHR 0x22, CHR 0x1F] @ ''doe'')"
    by (simp_all add: unescapedByte_def pairByte_def)
  have u: "unquote ''ab'' = ''ab''"
    "unquote (''john '' @ [CHR 0x5C, CHR 0x22, CHR 0x1F] @ ''doe'') = ''john '' @ [CHR 0x22, CHR 0x1F] @ ''doe''"
    by simp_all
  have d: "list_all validLabel (labelsOf ''a'')" "list_all validLabel (labelsOf ''example.com'')"
    by code_simp+
  have one: "parseRFC2821Mailbox (CHR 0x22 # ''ab'' @ CHR 0x22 # CHR ''@'' # ''a'')
     = (\<lparr>local = ''ab'', domain = ''a''\<rparr>, True)"
    using quoted_qtext_bytes [THEN conjunct1, rule_format, of "''ab''" "''a''"] q d u by simp
  have two: "parseRFC2821Mailbox (CHR 0x22 # (''john '' @ [CHR 0x5C, CHR 0x22, CHR 0x1F] @ ''doe'')
                          @ CHR 0x22 # CHR ''@'' # ''example.com'')
     = (\<lparr>local = ''john '' @ [CHR 0x22, CHR 0x1F] @ ''doe'', domain = ''example.com''\<rparr>, True)"
    using quoted_qtext_bytes [THEN conjunct1, rule_format,
        of "''john '' @ [CHR 0x5C, CHR 0x22, CHR 0x1F] @ ''doe''" "''example.com''"] q d u
    by simp
  have three: "parseRFC2821Mailbox ([CHR 0x22, CHR 0x0D, CHR 0x22] @ ''@a'') = (zeroMailbox, False)"
    using quoted_qtext_bytes [THEN conjunct2, THEN conjunct2, THEN conjunct2, THEN conjunct2,
        THEN conjunct1, rule_format, of "CHR 0x0D"] by simp
  have four: "parseRFC2821Mailbox (CHR 0x22 # ''ab'' @ CHR 0x0A # ''c'' @ [CHR 0x22] @ ''@a'')
      = (zeroMailbox, False)"
    using quoted_qtext_bytes [THEN conjunct2, THEN conjunct1, rule_format,
        of "''ab''" "CHR 0x0A" "''c'' @ [CHR 0x22] @ ''@a''"] q
    by simp
  have five: "parseRFC2821Mailbox (CHR 0x22 # ''ab'' @ CHR 0x5C # CHR 0x0A # ''c'' @ [CHR 0x22] @ ''@a'')
     = (zeroMailbox, False)"
    using quoted_qtext_bytes [THEN conjunct2, THEN conjunct2, THEN conjunct1, rule_format,
        of "''ab''" "CHR 0x0A" "''c'' @ [CHR 0x22] @ ''@a''"] q
    by simp
  have six: "parseRFC2821Mailbox (CHR 0x22 # ''bob'') = (zeroMailbox, False)"
    using quoted_qtext_bytes [THEN conjunct2, THEN conjunct2, THEN conjunct2, THEN conjunct1,
        rule_format, of "''bob''"] q
    by simp
  from one two three four five six show ?thesis by simp
qed

lemma parse_failure_zero:
  "\<not> snd (parseRFC2821Mailbox email) \<Longrightarrow> parseRFC2821Mailbox email = (zeroMailbox, False)"
  by (auto simp: parseRFC2821Mailbox_def Let_def split: option.splits if_splits)


text \<open>
  Claim C8 fails on the code: whatever email address fails to parse (once the DNS names
  and the addresses before it have passed), the message of the error \<open>validateNames\<close>
  returns is the same text, built from the zero mailbox the parser returned and not from
  the input.
\<close>

theorem unparsable_email_message:
  assumes "validateDNSNames L e dnsNames = None" and "validateIPs L e ips = None"
    and "\<not> snd (parseRFC2821Mailbox email)"
  shows "validateNames L e dnsNames ips (email # rest) uris =
           Some (MessageError (''cannot parse rfc822Name {'' @ Quote L [] @ '' '' @ Quote L [] @ ''}''))"
  using assms(1,2) parse_failure_zero [OF assms(3)]
  by (simp add: validateNames_def quotedMailbox_def zeroMailbox_def)

text \<open>
  Claim C8 at two concrete inputs: \<open>bob.example.com\<close> and \<open>alice@example..com\<close> are
  both refused with the message \<open>cannot parse rfc822Name {"" ""}\<close>.
\<close>

theorem unparsable_email_message_witness:
  "validateNames plainLib emptyEngine [] [] [''bob.example.com''] [] =
     Some (MessageError (''cannot parse rfc822Name {'' @ [CHR 0x22, CHR 0x22] @ '' '' @
                         [CHR 0x22, CHR 0x22] @ ''}'')) \<and>
   validateNames plainLib emptyEngine [] [] [''alice@example..com''] [] =
     Some (MessageError (''cannot parse rfc822Name {'' @ [CHR 0x22, CHR 0x22] @ '' '' @
                         [CHR 0x22, CHR 0x22] @ ''}''))"
proof -
  have a: "\<not> snd (parseRFC2821Mailbox ''bob.example.com'')"
    and b: "\<not> snd (parseRFC2821Mailbox ''alice@example..com'')"
    by code_simp+
  have d: "validateDNSNames plainLib emptyEngine [] = None"
    and i: "validateIPs plainLib emptyEngine [] = None"
    by simp_all
  show ?thesis
    using unparsable_email_message [OF d i a, of "[]" "[]"]
      unparsable_email_message [OF d i b, of "[]" "[]"]
    by (simp add: plainLib_def)
qed

section \<open>Properties of matchIPConstraint\<close>

text \<open>
  Two bytes agree under the mask byte with \<open>n\<close> leading ones exactly when their first
  \<open>n\<close> bits agree; over the bytes of two addresses of the same length, the comparison
  of \<open>Contains\<close> under the mask of a prefix length is the equality of their leading bits.
\<close>

lemma and_mask_eq_iff:
  fixes x y m :: "8 word"
  shows "(x AND m = y AND m) \<longleftrightarrow> (\<forall>k<8. bit m k \<longrightarrow> bit x k = bit y k)"
proof
  assume eq: "x AND m = y AND m"
  show "\<forall>k<8. bit m k \<longrightarrow> bit x k = bit y k"
  proof (intro allI impI)
    fix k assume "k < 8" and m: "bit m k"
    from eq have "bit (x AND m) k = bit (y AND m) k"
      by simp
    with m show "bit x k = bit y k"
      by (simp add: bit_and_iff)
  qed
next
  assume h: "\<forall>k<8. bit m k \<longrightarrow> bit x k = bit y k"
  show "x AND m = y AND m"
    by (rule bit_word_eqI) (use h in \<open>auto simp: bit_and_iff\<close>)
qed

lemma bit_prefix_mask:
  "bit (NOT (drop_bit n (0xFF :: 8 word))) k \<longleftrightarrow> k < 8 \<and> 8 \<le> n + k"
proof -
  have m: "(0xFF :: 8 word) = mask 8"
    by (simp add: mask_eq_exp_minus_1)
  show ?thesis
    unfolding m by (auto simp: bit_simps)
qed

lemma take_bitsOfByte:
  "take n (bitsOfByte x) = take n (bitsOfByte y) \<longleftrightarrow> (\<forall>j < min n 8. bit x (7 - j) = bit y (7 - j))"
  by (auto simp: bitsOfByte_def list_eq_iff_nth_eq)

lemma byte_prefix_mask:
  fixes x y :: "8 word"
  shows "(x AND NOT (drop_bit n 0xFF) = y AND NOT (drop_bit n 0xFF))
           \<longleftrightarrow> take n (bitsOfByte x) = take n (bitsOfByte y)"
proof -
  have "(\<forall>k<8. 8 \<le> n + k \<longrightarrow> bit x k = bit y k) \<longleftrightarrow> (\<forall>j < min n 8. bit x (7 - j) = bit y (7 - j))"
  proof
    assume h: "\<forall>k<8. 8 \<le> n + k \<longrightarrow> bit x k = bit y k"
    show "\<forall>j < min n 8. bit x (7 - j) = bit y (7 - j)"
    proof (intro allI impI)
      fix j assume j: "j < min n 8"
      then have "7 - j < 8" "8 \<le> n + (7 - j)" by auto
      with h show "bit x (7 - j) = bit y (7 - j)" by blast
    qed
  next
    assume h: "\<forall>j < min n 8. bit x (7 - j) = bit y (7 - j)"
    show "\<forall>k<8. 8 \<le> n + k \<longrightarrow> bit x k = bit y k"
    proof (intro allI impI)
      fix k :: nat assume k: "k < 8" "8 \<le> n + k"
      then have "7 - k < min n 8" "7 - (7 - k) = k" by auto
      with h show "bit x k = bit y k" by metis
    qed
  qed
  then show ?thesis
    by (simp add: and_mask_eq_iff bit_prefix_mask take_bitsOfByte)
qed

lemma full_byte_mask: "(0xFF :: 8 word) = NOT (drop_bit n 0xFF)" if "8 \<le> n"
proof -
  have m: "(0xFF :: 8 word) = mask 8"
    by (simp add: mask_eq_exp_minus_1)
  show ?thesis
    by (rule bit_word_eqI) (use that in \<open>auto simp: bit_prefix_mask m bit_simps\<close>)
qed

lemma length_bitsOfByte: "length (bitsOfByte x) = 8"
  by (simp add: bitsOfByte_def)

lemma length_bitsOf: "length (bitsOf xs) = 8 * length xs"
  by (induction xs) (simp_all add: bitsOf_def length_bitsOfByte)

lemma bitsOf_append: "bitsOf (xs @ ys) = bitsOf xs @ bitsOf ys"
  by (simp add: bitsOf_def)

lemma bitsOf_Cons: "bitsOf (x # xs) = bitsOfByte x @ bitsOf xs"
  by (simp add: bitsOf_def)

lemma length_cidrMaskLoop: "length (cidrMaskLoop n l) = l"
  by (induction l arbitrary: n) simp_all

lemma drop_cidrMaskLoop: "drop k (cidrMaskLoop n (k + l)) = cidrMaskLoop (n - 8 * k) l"
proof (induction k arbitrary: n)
  case 0
  then show ?case by simp
next
  case (Suc k)
  have "drop k (cidrMaskLoop 0 (k + l)) = cidrMaskLoop 0 l"
    using Suc [of 0] by simp
  moreover have "drop k (cidrMaskLoop (n - 8) (k + l)) = cidrMaskLoop (n - 8 - 8 * k) l"
    using Suc [of "n - 8"] by simp
  ultimately show ?case
    by (auto simp: diff_diff_eq)
qed

lemma list_all_upt: "list_all P [0 ..< n] \<longleftrightarrow> (\<forall>i<n. P i)"
  by (auto simp: list_all_iff)


lemma masked_eq_prefix:
  "length xs = l \<Longrightarrow> length ys = l \<Longrightarrow>
   list_all (\<lambda>i. (xs ! i) AND (cidrMaskLoop n l ! i) = (ys ! i) AND (cidrMaskLoop n l ! i)) [0 ..< l]
     \<longleftrightarrow> take n (bitsOf xs) = take n (bitsOf ys)"
proof (induction l arbitrary: xs ys n)
  case 0
  then show ?case by (simp add: bitsOf_def)
next
  case (Suc l)
  from Suc.prems obtain x xs' y ys' where xs: "xs = x # xs'" and ys: "ys = y # ys'"
    and lx: "length xs' = l" and ly: "length ys' = l"
    by (auto simp: length_Suc_conv)
  define b where "b = NOT (drop_bit n (0xFF :: 8 word))"
  define n' where "n' = n - 8"
  have mask: "cidrMaskLoop n (Suc l) = b # cidrMaskLoop n' l"
    using full_byte_mask [of n] by (auto simp: b_def n'_def)
  have split: "list_all (\<lambda>i. (xs ! i) AND (cidrMaskLoop n (Suc l) ! i) = (ys ! i) AND (cidrMaskLoop n (Suc l) ! i)) [0 ..< Suc l]
      \<longleftrightarrow> (x AND b = y AND b) \<and>
          list_all (\<lambda>i. (xs' ! i) AND (cidrMaskLoop n' l ! i) = (ys' ! i) AND (cidrMaskLoop n' l ! i)) [0 ..< l]"
    unfolding mask xs ys list_all_upt by (simp only: All_less_Suc2 nth_Cons_0 nth_Cons_Suc)
  have bits: "take n (bitsOf xs) = take n (bitsOf ys)
      \<longleftrightarrow> take n (bitsOfByte x) = take n (bitsOfByte y) \<and> take n' (bitsOf xs') = take n' (bitsOf ys')"
    unfolding xs ys bitsOf_Cons by (simp add: length_bitsOfByte n'_def)
  show ?case
    unfolding split bits Suc.IH [OF lx ly] b_def byte_prefix_mask ..
qed

text \<open>
  The 4-byte and the 16-byte forms of an address, and \<open>Contains\<close> on a network written
  as an address and a prefix length.
\<close>

lemma CIDRMask_prefix:
  "length a = 4 \<or> length a = 16 \<Longrightarrow> p \<le> 8 * length a \<Longrightarrow>
   CIDRMask (int p) (8 * int (length a)) = cidrMaskLoop p (length a)"
  by (auto simp: CIDRMask_def)

lemma length_v4InV6Prefix: "length v4InV6Prefix = 12"
  by (simp add: v4InV6Prefix_def)

lemma To4_Some:
  assumes "To4 ip = Some x"
  shows "length x = 4 \<and> To16 ip = Some (v4InV6Prefix @ x)"
proof (cases "length ip = 4")
  case True
  with assms show ?thesis by (simp add: To4_def To16_def)
next
  case False
  with assms have l: "length ip = 16" and z: "list_all (\<lambda>b. b = 0) (take 10 ip)"
    and f: "ip ! 10 = 0xFF" "ip ! 11 = 0xFF" and x: "x = take 4 (drop 12 ip)"
    by (auto simp: To4_def split: if_splits)
  have t10: "take 10 ip = replicate 10 0"
    using z l by (auto simp: list_all_iff intro!: replicate_eqI)
  have "take 11 ip = take 10 ip @ [ip ! 10]"
    using take_Suc_conv_app_nth [of 10 ip] l by simp
  moreover have "take 12 ip = take 11 ip @ [ip ! 11]"
    using take_Suc_conv_app_nth [of 11 ip] l by simp
  ultimately have "take 12 ip = replicate 10 0 @ [0xFF, 0xFF]"
    using t10 f by simp
  moreover have "v4InV6Prefix = replicate 10 0 @ [0xFF, 0xFF]"
    by (simp add: v4InV6Prefix_def numeral_eq_Suc)
  ultimately have "take 12 ip = v4InV6Prefix"
    by simp
  moreover have "ip = take 12 ip @ drop 12 ip"
    by simp
  moreover have "drop 12 ip = x"
    using l x by simp
  ultimately have e: "ip = v4InV6Prefix @ x"
    by metis
  have lx: "length x = 4"
    using l x by simp
  have "To16 ip = Some ip"
    using l by (simp add: To16_def)
  with e have "To16 ip = Some (v4InV6Prefix @ x)"
    by metis
  with lx show ?thesis ..
qed

lemma To4_None:
  assumes "To4 ip = None"
  shows "length ip \<noteq> 4 \<and> To16 ip = (if length ip = 16 then Some ip else None)"
  using assms by (auto simp: To4_def To16_def split: if_splits)

lemma length_bitsOf_prefix: "length (bitsOf v4InV6Prefix) = 96"
  by (simp add: length_bitsOf length_v4InV6Prefix)

lemma take_bits_behind_prefix:
  "take q (bitsOf (v4InV6Prefix @ x)) = take q (bitsOf (v4InV6Prefix @ y))
     \<longleftrightarrow> take (q - 96) (bitsOf x) = take (q - 96) (bitsOf y)"
  by (simp add: bitsOf_append length_bitsOf_prefix)

lemma Contains_prefix:
  assumes a: "length a = 4 \<or> length a = 16" and p: "p \<le> 8 * length a"
  shows "Contains \<lparr>IP = a, Mask = CIDRMask (int p) (8 * int (length a))\<rparr> ip = cidrContains a p ip"
proof -
  define n where "n = \<lparr>IP = a, Mask = cidrMaskLoop p (length a)\<rparr>"
  define a' where "a' = (case To4 a of Some a4 \<Rightarrow> a4 | None \<Rightarrow> a)"
  define p' where "p' = (if length a = 16 \<and> To4 a \<noteq> None then p - 96 else p)"
  define ip' where "ip' = (case To4 ip of Some x \<Rightarrow> x | None \<Rightarrow> ip)"
  have n: "\<lparr>IP = a, Mask = CIDRMask (int p) (8 * int (length a))\<rparr> = n"
    by (simp add: n_def CIDRMask_prefix [OF a p])
  have nm: "networkNumberAndMask n = (a', cidrMaskLoop p' (length a'))"
  proof (cases "To4 a")
    case None
    with a To4_None [OF None] show ?thesis
      by (auto simp: networkNumberAndMask_def n_def a'_def p'_def length_cidrMaskLoop)
  next
    case (Some a4)
    from To4_Some [OF Some] have l4: "length a4 = 4" by simp
    show ?thesis
    proof (cases "length a = 4")
      case True
      with Some l4 show ?thesis
        by (simp add: networkNumberAndMask_def n_def a'_def p'_def length_cidrMaskLoop)
    next
      case False
      with a have l16: "length a = 16" by simp
      have "drop 12 (cidrMaskLoop p (12 + 4)) = cidrMaskLoop (p - 8 * 12) 4"
        by (rule drop_cidrMaskLoop)
      then have "drop 12 (cidrMaskLoop p 16) = cidrMaskLoop (p - 96) 4"
        by simp
      with Some l4 l16 show ?thesis
        by (simp add: networkNumberAndMask_def n_def a'_def p'_def length_cidrMaskLoop)
    qed
  qed
  have c: "Contains n ip \<longleftrightarrow> length ip' = length a' \<and> take p' (bitsOf a') = take p' (bitsOf ip')"
  proof (cases "length ip' = length a'")
    case True
    then show ?thesis
      unfolding Contains_def nm ip'_def [symmetric]
      by (simp add: masked_eq_prefix [of a' "length a'" ip' p'])
  next
    case False
    then show ?thesis
      unfolding Contains_def nm ip'_def [symmetric] by simp
  qed
  have s: "cidrContains a p ip \<longleftrightarrow> length ip' = length a' \<and> take p' (bitsOf a') = take p' (bitsOf ip')"
  proof (cases "To4 a")
    case None
    note na = To4_None [OF None]
    with a have l16: "length a = 16" by simp
    have a': "a' = a" "p' = p" by (simp_all add: a'_def p'_def None)
    show ?thesis
    proof (cases "To4 ip")
      case None
      with To4_None [OF None] na l16 \<open>To4 a = None\<close> show ?thesis
        by (auto simp: cidrContains_def isIPv4_def a' ip'_def)
    next
      case (Some x)
      with To4_Some [OF Some] na l16 \<open>To4 a = None\<close> show ?thesis
        by (auto simp: cidrContains_def isIPv4_def a' ip'_def)
    qed
  next
    case (Some a4)
    note sa = To4_Some [OF Some]
    have a': "a' = a4" by (simp add: a'_def Some)
    show ?thesis
    proof (cases "To4 ip")
      case None
      with To4_None [OF None] sa Some show ?thesis
        by (auto simp: cidrContains_def isIPv4_def a' ip'_def)
    next
      case ipx: (Some x)
      note sx = To4_Some [OF ipx]
      have ip': "ip' = x" by (simp add: ip'_def ipx)
      have P: "(if length a = 4 then 96 + p else p) - 96 = p'"
        using a Some by (auto simp: p'_def)
      show ?thesis
        unfolding cidrContains_def a' ip'
        using sa sx Some ipx
        by (auto simp: isIPv4_def Let_def take_bits_behind_prefix P)
    qed
  qed
  show ?thesis
    unfolding n c s ..
qed

lemma To4_mapped: "length x = 4 \<Longrightarrow> To4 (v4InV6Prefix @ x) = Some x"
  by (simp add: To4_def v4InV6Prefix_def)

text \<open>
  Claim C5. For a network given by an address of 4 or 16 bytes and a prefix length (its
  mask the one \<open>net.CIDRMask\<close> builds), \<open>matchIPConstraint\<close> returns true exactly when
  the network contains the address under CIDR containment: both are of the same address
  family and the leading bits agree. An address and a network of different families
  never match, and an IPv4 address gives the same answer in its 4-byte and in its
  16-byte representation.
\<close>

theorem matchIPConstraint_cidr:
  assumes "length a = 4 \<or> length a = 16" and "p \<le> 8 * length a"
  shows "matchIPConstraint ip \<lparr>IP = a, Mask = CIDRMask (int p) (8 * int (length a))\<rparr>
           = (cidrContains a p ip, None) \<and>
         (isIPv4 ip \<noteq> isIPv4 a \<longrightarrow>
            matchIPConstraint ip \<lparr>IP = a, Mask = CIDRMask (int p) (8 * int (length a))\<rparr>
              = (False, None)) \<and>
         (length ip = 4 \<longrightarrow>
            matchIPConstraint (v4InV6Prefix @ ip) \<lparr>IP = a, Mask = CIDRMask (int p) (8 * int (length a))\<rparr>
              = matchIPConstraint ip \<lparr>IP = a, Mask = CIDRMask (int p) (8 * int (length a))\<rparr>)"
proof -
  have m: "matchIPConstraint ip' \<lparr>IP = a, Mask = CIDRMask (int p) (8 * int (length a))\<rparr>
           = (cidrContains a p ip', None)" for ip'
    by (simp add: matchIPConstraint_def Contains_prefix [OF assms])
  have f: "isIPv4 ip \<noteq> isIPv4 a \<Longrightarrow> \<not> cidrContains a p ip"
    by (auto simp: cidrContains_def split: option.splits)
  have r: "cidrContains a p (v4InV6Prefix @ ip) = cidrContains a p ip" if l: "length ip = 4"
  proof -
    have t: "To4 ip = Some ip" "To4 (v4InV6Prefix @ ip) = Some ip"
      using l by (simp_all add: To4_mapped) (simp add: To4_def)
    have s: "To16 ip = Some (v4InV6Prefix @ ip)" "To16 (v4InV6Prefix @ ip) = Some (v4InV6Prefix @ ip)"
      using l by (simp_all add: To16_def length_v4InV6Prefix)
    have i: "isIPv4 ip" "isIPv4 (v4InV6Prefix @ ip)"
      by (simp_all add: isIPv4_def t)
    show ?thesis
      by (cases "To16 a") (simp_all add: cidrContains_def s i)
  qed
  from f r show ?thesis
    unfolding m by simp
qed


lemma loopback_contained:
  "cidrContains [127, 0, 0, 0] 24 [127, 0, 0, 1]"
  "\<not> cidrContains [127, 0, 0, 0] 24 [127, 0, 1, 1]"
  "\<not> cidrContains [127, 0, 0, 0] 24 [0, 0, 0, 0, 0, 0, 0, 0, 0, 0, 0, 0, 0, 0, 0, 1]"
  "cidrContains [10, 0, 0, 0] 8 [10, 1, 2, 3]"
  "\<not> cidrContains [10, 0, 0, 0] 8 [192, 168, 1, 1]"
  by code_simp+

text \<open>
  Claim C5 at concrete inputs: \<open>127.0.0.1\<close>, held in 4 bytes or in 16, is contained in
  \<open>127.0.0.0/24\<close>; \<open>127.0.1.1\<close> and the IPv6 address \<open>::1\<close> are not; \<open>10.1.2.3\<close> is in
  \<open>10.0.0.0/8\<close> and \<open>192.168.1.1\<close> is not.
\<close>

theorem matchIPConstraint_cidr_witness:
  "matchIPConstraint [127, 0, 0, 1] \<lparr>IP = [127, 0, 0, 0], Mask = CIDRMask 24 32\<rparr> = (True, None) \<and>
   matchIPConstraint (v4InV6Prefix @ [127, 0, 0, 1]) \<lparr>IP = [127, 0, 0, 0], Mask = CIDRMask 24 32\<rparr>
     = (True, None) \<and>
   matchIPConstraint [127, 0, 1, 1] \<lparr>IP = [127, 0, 0, 0], Mask = CIDRMask 24 32\<rparr> = (False, None) \<and>
   matchIPConstraint [0, 0, 0, 0, 0, 0, 0, 0, 0, 0, 0, 0, 0, 0, 0, 1]
       \<lparr>IP = [127, 0, 0, 0], Mask = CIDRMask 24 32\<rparr> = (False, None) \<and>
   matchIPConstraint [10, 1, 2, 3] \<lparr>IP = [10, 0, 0, 0], Mask = CIDRMask 8 32\<rparr> = (True, None) \<and>
   matchIPConstraint [192, 168, 1, 1] \<lparr>IP = [10, 0, 0, 0], Mask = CIDRMask 8 32\<rparr> = (False, None)"
proof -
  have a: "length [127 :: 8 word, 0, 0, 0] = 4 \<or> length [127 :: 8 word, 0, 0, 0] = 16"
    and p: "(24 :: nat) \<le> 8 * length [127 :: 8 word, 0, 0, 0]"
    and b: "length [10 :: 8 word, 0, 0, 0] = 4 \<or> length [10 :: 8 word, 0, 0, 0] = 16"
    and q: "(8 :: nat) \<le> 8 * length [10 :: 8 word, 0, 0, 0]"
    by simp_all
  note n = matchIPConstraint_cidr [OF a p]
  note m = matchIPConstraint_cidr [OF b q]
  have one: "matchIPConstraint [127, 0, 0, 1] \<lparr>IP = [127, 0, 0, 0], Mask = CIDRMask 24 32\<rparr>
      = (True, None)"
    using n [of "[127, 0, 0, 1]", THEN conjunct1] loopback_contained by simp
  have two: "matchIPConstraint (v4InV6Prefix @ [127, 0, 0, 1])
      \<lparr>IP = [127, 0, 0, 0], Mask = CIDRMask 24 32\<rparr> = (True, None)"
    using n [of "[127, 0, 0, 1]", THEN conjunct2, THEN conjunct2] one by simp
  have three: "matchIPConstraint [127, 0, 1, 1] \<lparr>IP = [127, 0, 0, 0], Mask = CIDRMask 24 32\<rparr>
      = (False, None)"
    using n [of "[127, 0, 1, 1]", THEN conjunct1] loopback_contained by simp
  have four: "matchIPConstraint [0, 0, 0, 0, 0, 0, 0, 0, 0, 0, 0, 0, 0, 0, 0, 1]
       \<lparr>IP = [127, 0, 0, 0], Mask = CIDRMask 24 32\<rparr> = (False, None)"
    using n [of "[0, 0, 0, 0, 0, 0, 0, 0, 0, 0, 0, 0, 0, 0, 0, 1]", THEN conjunct1]
      loopback_contained by simp
  have five: "matchIPConstraint [10, 1, 2, 3] \<lparr>IP = [10, 0, 0, 0], Mask = CIDRMask 8 32\<rparr>
      = (True, None)"
    using m [of "[10, 1, 2, 3]", THEN conjunct1] loopback_contained by simp
  have six: "matchIPConstraint [192, 168, 1, 1] \<lparr>IP = [10, 0, 0, 0], Mask = CIDRMask 8 32\<rparr>
      = (False, None)"
    using m [of "[192, 168, 1, 1]", THEN conjunct1] loopback_contained by simp
  from one two three four five six show ?thesis by simp
qed

section \<open>Properties of matchURIConstraint\<close>

text \<open>
  The library calls of \<open>matchURIConstraint\<close> on five hosts: an IPv4 literal and a
  bracketed IPv6 literal, each with a port, and a bracketed IPv6 literal with a zone,
  with and without a port.
\<close>

lemma host_tests:
  "contains ''[fe80::1%eth0]:80'' '':''" "\<not> hasSuffix ''[fe80::1%eth0]:80'' '']''"
  "contains ''[fe80::1%eth0]'' '':''" "hasSuffix ''[fe80::1%eth0]'' '']''"
  "hasPrefix ''[fe80::1%eth0]'' ''[''" "\<not> hasPrefix ''fe80::1%eth0'' ''[''"
  "contains ''[::1]:443'' '':''" "\<not> hasSuffix ''[::1]:443'' '']''"
  "contains ''1.2.3.4:80'' '':''" "\<not> hasSuffix ''1.2.3.4:80'' '']''"
  by (simp_all add: hasSuffix_def)

lemma split_hosts:
  "SplitHostPort ''[fe80::1%eth0]:80'' = Inr (''fe80::1%eth0'', ''80'')"
  "SplitHostPort ''[::1]:443'' = Inr (''::1'', ''443'')"
  "SplitHostPort ''1.2.3.4:80'' = Inr (''1.2.3.4'', ''80'')"
  by (simp_all add: SplitHostPort_def splitHostPortRest_def Let_def)

lemma number_tests:
  "xtoi ''fe80::1%eth0'' = (65152, 4, True)" "xtoi ''1%eth0'' = (1, 1, True)"
  "xtoi ''1'' = (1, 1, True)"
  "dtoi ''1.2.3.4'' = (1, 1, True)" "dtoi ''2.3.4'' = (2, 1, True)"
  "dtoi ''3.4'' = (3, 1, True)" "dtoi ''4'' = (4, 1, True)"
  by (simp_all add: xtoi_def dtoi_def big_def)

lemma loop_zone_host: "parseIPv6Loop ''fe80::1%eth0'' (replicate 16 0) (- 1) 0 = None"
  apply (subst parseIPv6Loop.simps)
  apply (simp only: number_tests prod.case)
  apply (simp add: Let_def)
  apply (subst parseIPv6Loop.simps)
  apply (simp only: number_tests prod.case)
  apply (simp add: Let_def)
  done

lemma parse_zone_host: "ParseIP ''fe80::1%eth0'' = None"
  by (simp add: ParseIP_def parseIPv6_def loop_zone_host parseIPv6Tail_def)

lemma loop_v6_host:
  "parseIPv6Loop ''1'' (replicate 16 0) 0 0 = Some ([], (replicate 16 0)[0 := 0, 1 := 1], 0, 2)"
  apply (subst parseIPv6Loop.simps)
  apply (simp only: number_tests prod.case)
  apply (simp add: Let_def)
  done

lemma parse_v6_host: "ParseIP ''::1'' = Some [0, 0, 0, 0, 0, 0, 0, 0, 0, 0, 0, 0, 0, 0, 0, 1]"
proof -
  have "parseIPv6Tail (Some ([], (replicate 16 0)[0 := 0, 1 := 1], 0, 2))
      = Some [0, 0, 0, 0, 0, 0, 0, 0, 0, 0, 0, 0, 0, 0, 0, 1]"
    by (simp add: parseIPv6Tail_def eval_nat_numeral)
  then show ?thesis
    by (simp add: ParseIP_def parseIPv6_def loop_v6_host)
qed

lemma parse_v4_host: "ParseIP ''1.2.3.4'' = Some [0, 0, 0, 0, 0, 0, 0, 0, 0, 0, 255, 255, 1, 2, 3, 4]"
  by (simp add: ParseIP_def parseIPv4_def number_tests v4InV6Prefix_def eval_nat_numeral)

lemma labels_zone_host: "domainToReverseLabels ''fe80::1%eth0'' = Some [''fe80::1%eth0'']"
  by code_simp

text \<open>
  Claim C6 fails on the code. The host \<open>[fe80::1%eth0]:80\<close> is a bracketed IPv6 literal
  (with a zone) and a port. \<open>net.SplitHostPort\<close> removes the brackets with the port, so
  the test for brackets no longer applies, and \<open>net.ParseIP\<close> does not read an address
  with a zone: the host goes on to \<open>matchDomainConstraint\<close> as if it were a domain
  name, and matches the empty constraint and the constraint \<open>fe80::1%eth0\<close>. The same
  literal without a port is rejected, and so are the literals \<open>[::1]\<close> and \<open>1.2.3.4\<close>
  with a port and the empty host, whatever the constraint.
\<close>

theorem uri_zone_literal_with_port:
  "matchURIConstraint L \<lparr>Host = ''[fe80::1%eth0]:80'', URIString = s\<rparr> [] = (True, None) \<and>
   matchURIConstraint L \<lparr>Host = ''[fe80::1%eth0]:80'', URIString = s\<rparr> ''fe80::1%eth0''
     = (True, None) \<and>
   matchURIConstraint L \<lparr>Host = ''[fe80::1%eth0]'', URIString = s\<rparr> constraint =
     (False, Some (''URI with IP ('' @ Quote L s @ '') cannot be matched against constraints'')) \<and>
   matchURIConstraint L \<lparr>Host = ''[::1]:443'', URIString = s\<rparr> constraint =
     (False, Some (''URI with IP ('' @ Quote L s @ '') cannot be matched against constraints'')) \<and>
   matchURIConstraint L \<lparr>Host = ''1.2.3.4:80'', URIString = s\<rparr> constraint =
     (False, Some (''URI with IP ('' @ Quote L s @ '') cannot be matched against constraints'')) \<and>
   matchURIConstraint L \<lparr>Host = [], URIString = s\<rparr> constraint =
     (False, Some (''URI with empty host ('' @ Quote L s @
                   '') cannot be matched against constraints''))"
proof -
  have e: "matchDomainConstraint L ''fe80::1%eth0'' [] = (True, None)"
    by (simp add: matchDomainConstraint_def)
  have m: "matchDomainConstraint L ''fe80::1%eth0'' ''fe80::1%eth0'' = (True, None)"
    by (simp add: matchDomainConstraint_def labels_zone_host labelsMatch_def foldEqByte_def)
  show ?thesis
    by (simp add: matchURIConstraint_def host_tests split_hosts parse_zone_host parse_v6_host
          parse_v4_host e m)
qed

section \<open>Properties of checkNameConstraints\<close>

text \<open>
  What the two loops return: the excluded loop passes exactly the lists on which the
  matcher answers \<open>(false, nil)\<close> throughout, entries answered so are skipped, and every
  error either cites an excluded entry that matched or carries a matcher's message.
\<close>

lemma excludedLoop_None_iff:
  "excludedLoop L quoted nameType name parsedName match cs = None
     \<longleftrightarrow> (\<forall>c \<in> set cs. match parsedName c = (False, None))"
  by (induction cs) (auto split: prod.splits option.splits)

lemma excludedLoop_skip:
  "\<forall>x \<in> set pre. match parsedName x = (False, None) \<Longrightarrow>
   excludedLoop L quoted nameType name parsedName match (pre @ rest)
     = excludedLoop L quoted nameType name parsedName match rest"
  by (induction pre) auto

lemma excludedLoop_Some:
  "excludedLoop L quoted nameType name parsedName match cs = Some e \<Longrightarrow>
   Reason e = CANotAuthorizedForThisName \<and>
   ((\<exists>c \<in> set cs. match parsedName c = (True, None) \<and>
        Detail e = excludedDetail L nameType name (quoted c)) \<or>
    (\<exists>c \<in> set cs. snd (match parsedName c) = Some (Detail e)))"
  by (induction cs) (auto split: prod.splits option.splits if_splits)

lemma permittedLoop_skip:
  "\<forall>x \<in> set pre. match parsedName x = (False, None) \<Longrightarrow>
   permittedLoop parsedName match ok (pre @ c # rest)
     = permittedLoop parsedName match False (c # rest)"
  by (induction pre arbitrary: ok) (auto split: prod.splits option.splits)

lemma permittedLoop_Inl:
  "permittedLoop parsedName match ok cs = Inl e \<Longrightarrow>
   Reason e = CANotAuthorizedForThisName \<and> (\<exists>c \<in> set cs. snd (match parsedName c) = Some (Detail e))"
  by (induction cs arbitrary: ok) (auto split: prod.splits option.splits if_splits)

lemma checkNameConstraints_reason:
  "checkNameConstraints L quoted nameType name parsedName match permitted excluded = Some e
     \<Longrightarrow> Reason e = CANotAuthorizedForThisName"
  by (auto simp: checkNameConstraints_def split: option.splits sum.splits if_splits
        dest: excludedLoop_Some permittedLoop_Inl)

text \<open>
  Claim C2. With an empty permitted list, \<open>checkNameConstraints\<close> succeeds (returns nil)
  if and only if the name matches no entry of the excluded list and the matcher returns
  no error on any of them: an empty permitted list imposes no restriction.
\<close>

theorem empty_permitted_no_restriction:
  "checkNameConstraints L quoted nameType name parsedName match [] excluded = None
     \<longleftrightarrow> (\<forall>c \<in> set excluded. \<not> fst (match parsedName c)) \<and>
         (\<forall>c \<in> set excluded. snd (match parsedName c) = None)"
proof -
  have "checkNameConstraints L quoted nameType name parsedName match [] excluded = None
     \<longleftrightarrow> excludedLoop L quoted nameType name parsedName match excluded = None"
    by (simp add: checkNameConstraints_def split: option.splits)
  also have "\<dots> \<longleftrightarrow> (\<forall>c \<in> set excluded. match parsedName c = (False, None))"
    by (rule excludedLoop_None_iff)
  also have "\<dots> \<longleftrightarrow> (\<forall>c \<in> set excluded. \<not> fst (match parsedName c)) \<and>
         (\<forall>c \<in> set excluded. snd (match parsedName c) = None)"
    by (auto simp: prod_eq_iff)
  finally show ?thesis .
qed

text \<open>
  Claim C1, as amended. If the name matches an entry of the excluded list, then
  \<open>checkNameConstraints\<close> returns a not-authorized-for-name error whatever the permitted
  list holds (an excluded match wins over a permitted match). Its detail cites an
  excluded entry that matched or is the message of a matcher error on an excluded entry;
  it cites the matching entry \<open>c\<close> itself whenever the matcher answered \<open>(false, nil)\<close> on
  all entries before \<open>c\<close>.
\<close>

theorem excluded_match_wins:
  assumes "c \<in> set excluded" and "match parsedName c = (True, None)"
  shows "(\<exists>d. checkNameConstraints L quoted nameType name parsedName match permitted excluded
            = Some \<lparr>Reason = CANotAuthorizedForThisName, Detail = d\<rparr> \<and>
          ((\<exists>c' \<in> set excluded. match parsedName c' = (True, None) \<and>
               d = excludedDetail L nameType name (quoted c')) \<or>
           (\<exists>c' \<in> set excluded. snd (match parsedName c') = Some d))) \<and>
         (\<forall>pre post. excluded = pre @ c # post \<and>
             (\<forall>x \<in> set pre. match parsedName x = (False, None)) \<longrightarrow>
             checkNameConstraints L quoted nameType name parsedName match permitted excluded
               = Some \<lparr>Reason = CANotAuthorizedForThisName,
                       Detail = excludedDetail L nameType name (quoted c)\<rparr>)"
proof (intro conjI allI impI)
  have "excludedLoop L quoted nameType name parsedName match excluded \<noteq> None"
  proof
    assume "excludedLoop L quoted nameType name parsedName match excluded = None"
    with assms(1) have "match parsedName c = (False, None)"
      by (simp add: excludedLoop_None_iff)
    with assms(2) show False by simp
  qed
  then obtain e where e: "excludedLoop L quoted nameType name parsedName match excluded = Some e"
    by blast
  from excludedLoop_Some [OF e] have r: "Reason e = CANotAuthorizedForThisName"
    and d: "(\<exists>c' \<in> set excluded. match parsedName c' = (True, None) \<and>
               Detail e = excludedDetail L nameType name (quoted c')) \<or>
           (\<exists>c' \<in> set excluded. snd (match parsedName c') = Some (Detail e))"
    by blast+
  have "checkNameConstraints L quoted nameType name parsedName match permitted excluded = Some e"
    by (simp add: checkNameConstraints_def e)
  moreover from r have "e = \<lparr>Reason = CANotAuthorizedForThisName, Detail = Detail e\<rparr>"
    by simp
  ultimately show "\<exists>d. checkNameConstraints L quoted nameType name parsedName match permitted excluded
            = Some \<lparr>Reason = CANotAuthorizedForThisName, Detail = d\<rparr> \<and>
          ((\<exists>c' \<in> set excluded. match parsedName c' = (True, None) \<and>
               d = excludedDetail L nameType name (quoted c')) \<or>
           (\<exists>c' \<in> set excluded. snd (match parsedName c') = Some d))"
    using d by metis
next
  fix pre post
  assume h: "excluded = pre @ c # post \<and> (\<forall>x \<in> set pre. match parsedName x = (False, None))"
  then have "excludedLoop L quoted nameType name parsedName match excluded
      = excludedLoop L quoted nameType name parsedName match (c # post)"
    by (simp add: excludedLoop_skip)
  also have "\<dots> = Some \<lparr>Reason = CANotAuthorizedForThisName,
                       Detail = excludedDetail L nameType name (quoted c)\<rparr>"
    using assms(2) by simp
  finally show "checkNameConstraints L quoted nameType name parsedName match permitted excluded
               = Some \<lparr>Reason = CANotAuthorizedForThisName,
                       Detail = excludedDetail L nameType name (quoted c)\<rparr>"
    by (simp add: checkNameConstraints_def)
qed

text \<open>
  Claim C10. Every error of \<open>checkNameConstraints\<close> has the reason
  \<open>CANotAuthorizedForThisName\<close>; when the matcher returns an error on an excluded entry
  (all entries before it answered \<open>(false, nil)\<close>), or on a permitted entry (all excluded
  entries and the permitted entries before it answered \<open>(false, nil)\<close>), the error
  returned has that reason and the matcher's message as its detail.
\<close>

theorem matcher_error_reason:
  "(\<forall>e. checkNameConstraints L quoted nameType name parsedName match permitted excluded = Some e
        \<longrightarrow> Reason e = CANotAuthorizedForThisName) \<and>
   (\<forall>pre c post msg.
        excluded = pre @ c # post \<and> (\<forall>x \<in> set pre. match parsedName x = (False, None)) \<and>
        snd (match parsedName c) = Some msg \<longrightarrow>
        checkNameConstraints L quoted nameType name parsedName match permitted excluded
          = Some \<lparr>Reason = CANotAuthorizedForThisName, Detail = msg\<rparr>) \<and>
   (\<forall>pre c post msg.
        (\<forall>x \<in> set excluded. match parsedName x = (False, None)) \<and>
        permitted = pre @ c # post \<and> (\<forall>x \<in> set pre. match parsedName x = (False, None)) \<and>
        snd (match parsedName c) = Some msg \<longrightarrow>
        checkNameConstraints L quoted nameType name parsedName match permitted excluded
          = Some \<lparr>Reason = CANotAuthorizedForThisName, Detail = msg\<rparr>)"
proof (intro conjI allI impI)
  fix e
  assume "checkNameConstraints L quoted nameType name parsedName match permitted excluded = Some e"
  then show "Reason e = CANotAuthorizedForThisName"
    by (rule checkNameConstraints_reason)
next
  fix pre c post msg
  assume h: "excluded = pre @ c # post \<and> (\<forall>x \<in> set pre. match parsedName x = (False, None)) \<and>
        snd (match parsedName c) = Some msg"
  then have "excludedLoop L quoted nameType name parsedName match excluded
      = excludedLoop L quoted nameType name parsedName match (c # post)"
    by (simp add: excludedLoop_skip)
  also have "\<dots> = Some \<lparr>Reason = CANotAuthorizedForThisName, Detail = msg\<rparr>"
    using h by (cases "match parsedName c") auto
  finally show "checkNameConstraints L quoted nameType name parsedName match permitted excluded
          = Some \<lparr>Reason = CANotAuthorizedForThisName, Detail = msg\<rparr>"
    by (simp add: checkNameConstraints_def)
next
  fix pre c post msg
  assume h: "(\<forall>x \<in> set excluded. match parsedName x = (False, None)) \<and>
        permitted = pre @ c # post \<and> (\<forall>x \<in> set pre. match parsedName x = (False, None)) \<and>
        snd (match parsedName c) = Some msg"
  then have ex: "excludedLoop L quoted nameType name parsedName match excluded = None"
    by (simp add: excludedLoop_None_iff)
  from h have "permittedLoop parsedName match True permitted
      = permittedLoop parsedName match False (c # post)"
    by (simp add: permittedLoop_skip)
  also have "\<dots> = Inl \<lparr>Reason = CANotAuthorizedForThisName, Detail = msg\<rparr>"
    using h by (cases "match parsedName c") auto
  finally show "checkNameConstraints L quoted nameType name parsedName match permitted excluded
          = Some \<lparr>Reason = CANotAuthorizedForThisName, Detail = msg\<rparr>"
    by (simp add: checkNameConstraints_def ex)
qed

text \<open>
  Claim C1 as stated fails where the matcher returns an error on an earlier excluded
  entry: \<open>example.com\<close> matches the excluded entry \<open>example.com\<close> (and the permitted
  one), but the error returned carries the parse message of the entry \<open>a..b\<close> before it
  and cites no excluding entry.
\<close>

theorem excluded_citation_counterexample:
  "matchDomainConstraint plainLib ''example.com'' ''example.com'' = (True, None) \<and>
   checkNameConstraints plainLib (Quote plainLib) ''dns'' ''example.com'' ''example.com''
       (matchDomainConstraint plainLib) [''example.com''] [''a..b'', ''example.com'']
     = Some \<lparr>Reason = CANotAuthorizedForThisName,
             Detail = ''cannot parse domain '' @ Quote plainLib ''a..b''\<rparr> \<and>
   checkNameConstraints plainLib (Quote plainLib) ''dns'' ''example.com'' ''example.com''
       (matchDomainConstraint plainLib) [''example.com''] [''a..b'', ''example.com'']
     \<noteq> Some \<lparr>Reason = CANotAuthorizedForThisName,
             Detail = excludedDetail plainLib ''dns'' ''example.com'' (Quote plainLib ''example.com'')\<rparr> \<and>
   checkNameConstraints plainLib (Quote plainLib) ''dns'' ''example.com'' ''example.com''
       (matchDomainConstraint plainLib) [''example.com''] [''a..b'', ''example.com'']
     \<noteq> Some \<lparr>Reason = CANotAuthorizedForThisName,
             Detail = excludedDetail plainLib ''dns'' ''example.com'' (Quote plainLib ''a..b'')\<rparr>"
  by code_simp

text \<open>
  Claim C1 (amended) at a concrete input: \<open>secret.example.com\<close> matches both the
  permitted \<open>example.com\<close> and the excluded \<open>secret.example.com\<close>, and is refused with
  the excluded entry cited.
\<close>

theorem excluded_match_wins_witness:
  "matchDomainConstraint plainLib ''secret.example.com'' ''example.com'' = (True, None) \<and>
   checkNameConstraints plainLib (Quote plainLib) ''dns'' ''secret.example.com'' ''secret.example.com''
       (matchDomainConstraint plainLib) [''example.com''] [''secret.example.com'']
     = Some \<lparr>Reason = CANotAuthorizedForThisName,
             Detail = excludedDetail plainLib ''dns'' ''secret.example.com''
                        (Quote plainLib ''secret.example.com'')\<rparr>"
proof -
  have p: "matchDomainConstraint plainLib ''secret.example.com'' ''example.com'' = (True, None)"
    by code_simp
  have m: "matchDomainConstraint plainLib ''secret.example.com'' ''secret.example.com'' = (True, None)"
    by code_simp
  have i: "''secret.example.com'' \<in> set [''secret.example.com'']"
    by simp
  from excluded_match_wins [where c = "''secret.example.com''" and excluded = "[''secret.example.com'']"
      and match = "matchDomainConstraint plainLib" and parsedName = "''secret.example.com''"
      and L = plainLib and quoted = "Quote plainLib" and nameType = "''dns''"
      and name = "''secret.example.com''" and permitted = "[''example.com'']", OF i m]
  have "\<forall>pre post. [''secret.example.com''] = pre @ ''secret.example.com'' # post \<and>
             (\<forall>x \<in> set pre. matchDomainConstraint plainLib ''secret.example.com'' x = (False, None)) \<longrightarrow>
             checkNameConstraints plainLib (Quote plainLib) ''dns'' ''secret.example.com'' ''secret.example.com''
       (matchDomainConstraint plainLib) [''example.com''] [''secret.example.com'']
               = Some \<lparr>Reason = CANotAuthorizedForThisName,
                       Detail = excludedDetail plainLib ''dns'' ''secret.example.com'' (Quote plainLib ''secret.example.com'')\<rparr>"
    by blast
  from this [rule_format, of "[]" "[]"] p show ?thesis
    by simp
qed

text \<open>
  Claim C2 at a concrete input: no permitted DNS constraint, two exclusions that
  \<open>www.example.com\<close> does not match.
\<close>

theorem empty_permitted_no_restriction_witness:
  "checkNameConstraints plainLib (Quote plainLib) ''dns'' ''www.example.com'' ''www.example.com''
       (matchDomainConstraint plainLib) [] [''secret.example.com'', ''example.org''] = None"
proof -
  have "matchDomainConstraint plainLib ''www.example.com'' ''secret.example.com'' = (False, None)"
    and "matchDomainConstraint plainLib ''www.example.com'' ''example.org'' = (False, None)"
    by code_simp+
  then show ?thesis
    using empty_permitted_no_restriction [of plainLib "Quote plainLib" "''dns''" "''www.example.com''" "''www.example.com''"
        "matchDomainConstraint plainLib" "[''secret.example.com'', ''example.org'']"]
    by simp
qed

text \<open>
  Claim C10 at a concrete input: the unparsable constraint \<open>a..b\<close> in the excluded
  list, and in the permitted list.
\<close>

theorem matcher_error_reason_witness:
  "checkNameConstraints plainLib (Quote plainLib) ''dns'' ''example.com'' ''example.com''
       (matchDomainConstraint plainLib) [] [''example.org'', ''a..b'']
     = Some \<lparr>Reason = CANotAuthorizedForThisName,
             Detail = ''cannot parse domain '' @ Quote plainLib ''a..b''\<rparr> \<and>
   checkNameConstraints plainLib (Quote plainLib) ''dns'' ''example.com'' ''example.com''
       (matchDomainConstraint plainLib) [''example.org'', ''a..b''] [''example.net'']
     = Some \<lparr>Reason = CANotAuthorizedForThisName,
             Detail = ''cannot parse domain '' @ Quote plainLib ''a..b''\<rparr>"
proof -
  have a: "matchDomainConstraint plainLib ''example.com'' ''example.org'' = (False, None)"
    and b: "matchDomainConstraint plainLib ''example.com'' ''example.net'' = (False, None)"
    and c: "snd (matchDomainConstraint plainLib ''example.com'' ''a..b'')
              = Some (''cannot parse domain '' @ Quote plainLib ''a..b'')"
    by code_simp+
  have one: "checkNameConstraints plainLib (Quote plainLib) ''dns'' ''example.com'' ''example.com''
       (matchDomainConstraint plainLib) [] [''example.org'', ''a..b'']
     = Some \<lparr>Reason = CANotAuthorizedForThisName,
             Detail = ''cannot parse domain '' @ Quote plainLib ''a..b''\<rparr>"
    using matcher_error_reason [of plainLib "Quote plainLib" "''dns''" "''example.com''" "''example.com''"
        "matchDomainConstraint plainLib" "[]" "[''example.org'', ''a..b'']",
        THEN conjunct2, THEN conjunct1, rule_format,
        of "[''example.org'']" "''a..b''" "[]" "''cannot parse domain '' @ Quote plainLib ''a..b''"]
      a c by simp
  have two: "checkNameConstraints plainLib (Quote plainLib) ''dns'' ''example.com'' ''example.com''
       (matchDomainConstraint plainLib) [''example.org'', ''a..b''] [''example.net'']
     = Some \<lparr>Reason = CANotAuthorizedForThisName,
             Detail = ''cannot parse domain '' @ Quote plainLib ''a..b''\<rparr>"
    using matcher_error_reason [of plainLib "Quote plainLib" "''dns''" "''example.com''" "''example.com''"
        "matchDomainConstraint plainLib" "[''example.org'', ''a..b'']" "[''example.net'']",
        THEN conjunct2, THEN conjunct2, rule_format,
        of "[''example.org'']" "''a..b''" "[]" "''cannot parse domain '' @ Quote plainLib ''a..b''"]
      a b c by simp
  from one two show ?thesis by simp
qed

end
